theory Spec2Isabelle
  imports Main "HOL-Library.Sublist"
begin

section \<open>Listing paginator (jobListings)\<close>

type_synonym JobID = string

text \<open>
  \<^verbatim>\<open>strings.ReplaceAll(s, old, new)\<close> for a non-empty \<open>old\<close>: the leftmost
  non-overlapping occurrences of \<open>old\<close> are replaced, scanning from the left. Both call
  sites pass a non-empty literal for \<open>old\<close>; the empty pattern (which Go matches at
  rune boundaries) is left without an equation.
\<close>

fun replaceAll :: "string \<Rightarrow> string \<Rightarrow> string \<Rightarrow> string" where
  "replaceAll [] (c # cs) new = []"
| "replaceAll (x # xs) (c # cs) new =
     (if prefix (c # cs) (x # xs) then new @ replaceAll (drop (length cs) xs) (c # cs) new
      else x # replaceAll xs (c # cs) new)"

text \<open>The expression sent on the result channel for one URN of a page (line 82).\<close>

definition jobIdOfUrn :: "string \<Rightarrow> JobID" where
  "jobIdOfUrn urn =
     replaceAll (replaceAll urn ''urn:li:fsd_jobPostingCard:('' '''') '',JOB_DETAILS)'' ''''"

text \<open>
  \<^verbatim>\<open>jobListingsResponse\<close>: the anonymous element struct of
  \<^verbatim>\<open>Metadata.JobCardPrefetchQueries\<close> is the record \<open>prefetchQuery\<close>; the fields of
  the anonymous \<^verbatim>\<open>Metadata\<close> and \<^verbatim>\<open>Paging\<close> structs are flattened.
  Go's \<^verbatim>\<open>int\<close> is modelled by \<open>int\<close>: \<^verbatim>\<open>start\<close> is a sum of slice lengths and
  stays far below \<open>2^63\<close>.
\<close>

record prefetchQuery =
  PrefetchJobPostingCardUrns :: "string list"

record jobListingsResponse =
  JobCardPrefetchQueries :: "prefetchQuery list"
  Paging_Total :: int
  Paging_Start :: int
  Paging_Count :: int

text \<open>
  What one page request can come to, in the order of the checks in the loop body:
  \<^verbatim>\<open>http.NewRequest\<close> fails, \<^verbatim>\<open>httpClient.Do\<close> fails, the status is not 200, the
  body does not decode, or the body decodes to a response.
\<close>

datatype listing_outcome =
    NewRequestError
  | DoError
  | StatusNotOK int
  | DecodeError
  | Decoded jobListingsResponse

text \<open>
  The upstream is an oracle: the outcome of the \<open>n\<close>-th request (counted from 0) of one
  \<^verbatim>\<open>jobListings\<close> call, made with offset \<open>start\<close> (the page size is the constant 100
  and the search term is fixed for the call).
\<close>

type_synonym upstream = "nat \<Rightarrow> int \<Rightarrow> listing_outcome"

text \<open>
  How the goroutine ends: the loop condition becomes false (\<open>Done\<close>), one of the four
  logged early returns (\<open>Failed\<close>), or the run-time panic of indexing
  \<^verbatim>\<open>JobCardPrefetchQueries[0]\<close> on an empty slice. \<open>sent\<close> is the sequence of values
  sent on the result channel before it is closed, \<open>requests\<close> the number of HTTP
  requests issued.
\<close>

datatype listing_exit = Done | Failed listing_outcome | IndexOutOfRange

record listing_run =
  sent :: "JobID list"
  exit :: listing_exit
  requests :: nat

text \<open>
  The \<^verbatim>\<open>for !done\<close> loop of the goroutine, lines 52 to 87. The loop has no bound of its
  own, so it is a partial function: \<open>None\<close> is a run that never ends.
\<close>

partial_function (option) jobListings_loop ::
  "upstream \<Rightarrow> nat \<Rightarrow> int \<Rightarrow> JobID list \<Rightarrow> listing_run option" where
  "jobListings_loop up n start out =
     (case up n start of
        NewRequestError \<Rightarrow> Some \<lparr>sent = out, exit = Failed NewRequestError, requests = n\<rparr>
      | DoError \<Rightarrow> Some \<lparr>sent = out, exit = Failed DoError, requests = Suc n\<rparr>
      | StatusNotOK code \<Rightarrow> Some \<lparr>sent = out, exit = Failed (StatusNotOK code), requests = Suc n\<rparr>
      | DecodeError \<Rightarrow> Some \<lparr>sent = out, exit = Failed DecodeError, requests = Suc n\<rparr>
      | Decoded content \<Rightarrow>
          (case JobCardPrefetchQueries content of
             [] \<Rightarrow> Some \<lparr>sent = out, exit = IndexOutOfRange, requests = Suc n\<rparr>
           | q # _ \<Rightarrow>
               let out' = out @ map jobIdOfUrn (PrefetchJobPostingCardUrns q);
                   start' = start + int (length (PrefetchJobPostingCardUrns q))
               in if start' \<ge> Paging_Total content
                  then Some \<lparr>sent = out', exit = Done, requests = Suc n\<rparr>
                  else jobListings_loop up (Suc n) start' out'))"

declare jobListings_loop.simps [code]

text \<open>The goroutine started by \<^verbatim>\<open>jobListings\<close>: \<^verbatim>\<open>start := 0\<close>, nothing sent yet.\<close>

definition jobListings_goroutine :: "upstream \<Rightarrow> listing_run option" where
  "jobListings_goroutine up = jobListings_loop up 0 0 []"

text \<open>
  \<^verbatim>\<open>jobListings\<close> returns the channel and nothing else: its caller receives the values
  sent before the channel is closed. The log lines go to the process log.
\<close>

definition jobListings :: "upstream \<Rightarrow> JobID list option" where
  "jobListings up = map_option sent (jobListings_goroutine up)"

subsection \<open>Pages of a run\<close>

text \<open>The URNs the loop body reads from a decoded page (none when the slice is empty).\<close>

definition pageUrns :: "jobListingsResponse \<Rightarrow> string list" where
  "pageUrns p = (case JobCardPrefetchQueries p of [] \<Rightarrow> [] | q # _ \<Rightarrow> PrefetchJobPostingCardUrns q)"

definition pagesUrns :: "jobListingsResponse list \<Rightarrow> string list" where
  "pagesUrns ps = concat (map pageUrns ps)"

text \<open>
  \<open>served up n start ps\<close>: from request \<open>n\<close> at offset \<open>start\<close> on, the upstream answers
  with the pages \<open>ps\<close> in this order, each at the offset the pages before it add up to.
\<close>

fun served :: "upstream \<Rightarrow> nat \<Rightarrow> int \<Rightarrow> jobListingsResponse list \<Rightarrow> bool" where
  "served up n start [] = True"
| "served up n start (p # ps) =
     (up n start = Decoded p \<and> served up (Suc n) (start + int (length (pageUrns p))) ps)"

text \<open>
  \<open>unfinished start ps\<close>: every page of \<open>ps\<close> has a first prefetch query and leaves the
  running count below the total that page reports, so that the loop goes on after it.
\<close>

fun unfinished :: "int \<Rightarrow> jobListingsResponse list \<Rightarrow> bool" where
  "unfinished start [] = True"
| "unfinished start (p # ps) =
     (JobCardPrefetchQueries p \<noteq> [] \<and> start + int (length (pageUrns p)) < Paging_Total p \<and>
      unfinished (start + int (length (pageUrns p))) ps)"

section \<open>Detail fetcher (jobPostings)\<close>

record JobPosting =
  JobID :: string
  Company :: string
  Description :: string
  Title :: string

text \<open>
  \<^verbatim>\<open>jobPostingsResponse\<close>, with the nested anonymous structs flattened to the three
  values the function reads: \<^verbatim>\<open>CompanyDetails.Company.Result.Name\<close>,
  \<^verbatim>\<open>Description.Text\<close> and \<^verbatim>\<open>Title\<close>.
\<close>

record jobPostingsResponse =
  CompanyDetails_Company_Result_Name :: string
  Description_Text :: string
  Response_Title :: string

datatype posting_outcome =
    PostingNewRequestError
  | PostingDoError
  | PostingStatusNotOK int
  | PostingDecodeError
  | PostingDecoded jobPostingsResponse

datatype fetch_error =
    ErrorCreatingRequest
  | ErrorMakingRequest
  | ErrorResponseNotOK int
  | ErrorDecodingResponse

text \<open>\<^verbatim>\<open>jobPostings\<close>: one request, its outcome given by the upstream; no retry.\<close>

fun jobPostings :: "JobID \<Rightarrow> posting_outcome \<Rightarrow> fetch_error + JobPosting" where
  "jobPostings jid PostingNewRequestError = Inl ErrorCreatingRequest"
| "jobPostings jid PostingDoError = Inl ErrorMakingRequest"
| "jobPostings jid (PostingStatusNotOK code) = Inl (ErrorResponseNotOK code)"
| "jobPostings jid PostingDecodeError = Inl ErrorDecodingResponse"
| "jobPostings jid (PostingDecoded content) =
     Inr \<lparr>JobID = jid,
          Company = CompanyDetails_Company_Result_Name content,
          Description = Description_Text content,
          Title = Response_Title content\<rparr>"

section \<open>Fan-out and aggregation (main)\<close>

record SearchGroup =
  SearchTerm :: string
  Jobs :: "JobPosting list"

record JobCategoryGroup =
  Category :: string
  Searches :: "SearchGroup list"

text \<open>
  \<^verbatim>\<open>JobCategory\<close>; its field \<^verbatim>\<open>Category\<close> is written \<open>CategoryName\<close> here, the
  name \<open>Category\<close> being the field of \<open>JobCategoryGroup\<close>.
\<close>

record JobCategory =
  CategoryName :: string
  SearchTerms :: "string list"

definition getJobCategories :: "JobCategory list" where
  "getJobCategories =
     [\<lparr>CategoryName = ''Data Science'', SearchTerms = [''data scientist'', ''data science'']\<rparr>,
      \<lparr>CategoryName = ''Security'', SearchTerms = [''security engineer'', ''security analyst'']\<rparr>]"

text \<open>
  The goroutines of one search, one per identifier received from the listing channel
  (lines 248 to 266). The goroutines run concurrently; every one of them either returns
  after logging its error or appends its job under \<^verbatim>\<open>searchMu\<close>. A schedule is the list
  of the goroutines in the order in which they do so, each with its identifier and the
  outcome of its request. \<^verbatim>\<open>searchWg.Wait()\<close> returns when the list is exhausted.
\<close>

datatype log_line = CouldNotGetJobPosting JobID fetch_error

record search_run =
  searchGroup :: SearchGroup
  logged :: "log_line list"

fun fetchJobs :: "(JobID \<times> posting_outcome) list \<Rightarrow> search_run \<Rightarrow> search_run" where
  "fetchJobs [] run = run"
| "fetchJobs ((jid, outcome) # rest) run =
     (case jobPostings jid outcome of
        Inl err \<Rightarrow> fetchJobs rest (run\<lparr>logged := logged run @ [CouldNotGetJobPosting jid err]\<rparr>)
      | Inr job \<Rightarrow>
          fetchJobs rest
            (run\<lparr>searchGroup := (searchGroup run)\<lparr>Jobs := Jobs (searchGroup run) @ [job]\<rparr>\<rparr>))"

definition runSearch :: "string \<Rightarrow> (JobID \<times> posting_outcome) list \<Rightarrow> search_run" where
  "runSearch searchTerm schedule =
     fetchJobs schedule \<lparr>searchGroup = \<lparr>SearchTerm = searchTerm, Jobs = []\<rparr>, logged = []\<rparr>"

text \<open>Lines 219 to 227: one entry per category, with no search group yet.\<close>

definition initJobGroups :: "JobCategory list \<Rightarrow> JobCategoryGroup list" where
  "initJobGroups categories = map (\<lambda>cat. \<lparr>Category = CategoryName cat, Searches = []\<rparr>) categories"

text \<open>Lines 272 to 277: the group is appended to the first entry of its category.\<close>

fun appendSearchGroup :: "string \<Rightarrow> SearchGroup \<Rightarrow> JobCategoryGroup list \<Rightarrow> JobCategoryGroup list" where
  "appendSearchGroup category sg [] = []"
| "appendSearchGroup category sg (jobGroup # rest) =
     (if Category jobGroup = category
      then jobGroup\<lparr>Searches := Searches jobGroup @ [sg]\<rparr> # rest
      else jobGroup # appendSearchGroup category sg rest)"

text \<open>Lines 270 to 279: what a search goroutine does with its group under \<^verbatim>\<open>mu\<close>.\<close>

definition mergeSearchGroup :: "string \<Rightarrow> SearchGroup \<Rightarrow> JobCategoryGroup list \<Rightarrow> JobCategoryGroup list" where
  "mergeSearchGroup category sg jobGroups =
     (if length (Jobs sg) > 0 then appendSearchGroup category sg jobGroups else jobGroups)"

text \<open>
  The tree at \<^verbatim>\<open>wg.Wait()\<close>: the search goroutines, in the order in which they reach
  line 270, each with its category, its search term and its schedule of fetches.
\<close>

record search_task =
  task_category :: string
  task_searchTerm :: string
  task_schedule :: "(JobID \<times> posting_outcome) list"

definition collectJobGroups :: "JobCategory list \<Rightarrow> search_task list \<Rightarrow> JobCategoryGroup list" where
  "collectJobGroups categories tasks =
     fold (\<lambda>t. mergeSearchGroup (task_category t)
                 (searchGroup (runSearch (task_searchTerm t) (task_schedule t))))
          tasks (initJobGroups categories)"

section \<open>Flat sink (saveJobsToFile)\<close>

datatype save_error =
    CouldNotCreateDirectory
  | CouldNotOpenFile
  | CouldNotEncodeJobs
  | CouldNotOpenDatabase
  | CouldNotEnableForeignKeys
  | CouldNotCreateTable
  | CouldNotBeginTransaction
  | CouldNotInsertCategory string
  | CouldNotInsertSearchTerm string
  | CouldNotInsertJob string
  | CouldNotInsertJobCategory string int
  | CouldNotInsertSearchJob int string
  | CouldNotCommitTransaction

text \<open>
  The operating system's answers to the calls of \<^verbatim>\<open>saveJobsToFile\<close>: whether
  \<^verbatim>\<open>os.Stat\<close> finds the directory, whether \<^verbatim>\<open>os.MkdirAll\<close> and \<^verbatim>\<open>os.OpenFile\<close>
  succeed, and, when the write of the encoder fails, after how many bytes.
\<close>

record os_answers =
  stat_ok :: bool
  mkdir_ok :: bool
  open_ok :: bool
  write_fails_after :: "nat option"

text \<open>
  Writing \<open>bytes\<close> at offset 0 of a file opened with \<^verbatim>\<open>os.O_RDWR|os.O_CREATE\<close>: the
  flags do not include \<^verbatim>\<open>os.O_TRUNC\<close>, so the bytes of the file beyond the written ones
  stay.
\<close>

definition writeAtStart :: "string \<Rightarrow> string \<Rightarrow> string" where
  "writeAtStart bytes old = bytes @ drop (length bytes) old"

text \<open>
  \<^verbatim>\<open>saveJobsToFile\<close>. The files are a map from paths to contents; \<open>encode\<close> is
  \<^verbatim>\<open>json.NewEncoder(f).Encode\<close> of the standard library on \<^verbatim>\<open>[]JobCategoryGroup\<close>.
\<close>

definition saveJobsToFile ::
  "os_answers \<Rightarrow> (JobCategoryGroup list \<Rightarrow> string) \<Rightarrow> JobCategoryGroup list \<Rightarrow> string \<Rightarrow>
   (string \<rightharpoonup> string) \<Rightarrow> save_error option \<times> (string \<rightharpoonup> string)" where
  "saveJobsToFile os encode jobGroups jobsFilePath files =
     (if \<not> stat_ok os \<and> \<not> mkdir_ok os then (Some CouldNotCreateDirectory, files)
      else if \<not> open_ok os then (Some CouldNotOpenFile, files)
      else
        let old = (case files jobsFilePath of None \<Rightarrow> [] | Some content \<Rightarrow> content) in
        case write_fails_after os of
          Some k \<Rightarrow>
            (Some CouldNotEncodeJobs,
             files(jobsFilePath \<mapsto> writeAtStart (take k (encode jobGroups)) old))
        | None \<Rightarrow> (None, files(jobsFilePath \<mapsto> writeAtStart (encode jobGroups) old)))"

definition allOk :: os_answers where
  "allOk = \<lparr>stat_ok = True, mkdir_ok = True, open_ok = True, write_fails_after = None\<rparr>"

section \<open>Relational sink (saveJobsToSQLite)\<close>

subsection \<open>The five tables\<close>

text \<open>
  A table is the list of its rows in insertion order. The rows of \<^verbatim>\<open>jobs\<close> have the
  columns of \<open>JobPosting\<close>. \<open>categories_seq\<close> and \<open>searches_seq\<close> are the entries of
  \<^verbatim>\<open>sqlite_sequence\<close> for the two \<^verbatim>\<open>AUTOINCREMENT\<close> keys. A table that does not
  exist yet is an empty one: \<^verbatim>\<open>CREATE TABLE IF NOT EXISTS\<close> changes no row.
\<close>

record category_row =
  category_id :: int
  category_name :: string

record search_row =
  search_id :: int
  search_term :: string

record job_category_row =
  jc_job_id :: string
  jc_category_id :: int

record search_job_row =
  sj_search_id :: int
  sj_job_id :: string
  first_seen :: string
  last_seen :: string

record database =
  jobs :: "JobPosting list"
  categories :: "category_row list"
  categories_seq :: int
  jobs_categories :: "job_category_row list"
  searches :: "search_row list"
  searches_seq :: int
  searches_jobs :: "search_job_row list"

definition emptyDatabase :: database where
  "emptyDatabase =
     \<lparr>jobs = [], categories = [], categories_seq = 0, jobs_categories = [],
      searches = [], searches_seq = 0, searches_jobs = []\<rparr>"

subsection \<open>The five statements\<close>

text \<open>An \<^verbatim>\<open>AUTOINCREMENT\<close> key: one more than the largest key the table ever had.\<close>

definition nextRowid :: "int \<Rightarrow> int list \<Rightarrow> int" where
  "nextRowid seq ids = fold max ids seq + 1"

text \<open>
  \<^verbatim>\<open>INSERT INTO categories (category_name) VALUES (?) ON CONFLICT(category_name)
  DO UPDATE SET category_name=category_name RETURNING category_id\<close>
\<close>

definition upsertCategory :: "string \<Rightarrow> database \<Rightarrow> int \<times> database" where
  "upsertCategory name db =
     (case find (\<lambda>r. category_name r = name) (categories db) of
        Some r \<Rightarrow> (category_id r, db)
      | None \<Rightarrow>
          let i = nextRowid (categories_seq db) (map category_id (categories db))
          in (i, db\<lparr>categories := categories db @ [\<lparr>category_id = i, category_name = name\<rparr>],
                    categories_seq := i\<rparr>))"

text \<open>
  \<^verbatim>\<open>INSERT INTO searches (search_term) VALUES (?) ON CONFLICT(search_term)
  DO UPDATE SET search_term=search_term RETURNING search_id\<close>
\<close>

definition upsertSearch :: "string \<Rightarrow> database \<Rightarrow> int \<times> database" where
  "upsertSearch term db =
     (case find (\<lambda>r. search_term r = term) (searches db) of
        Some r \<Rightarrow> (search_id r, db)
      | None \<Rightarrow>
          let i = nextRowid (searches_seq db) (map search_id (searches db))
          in (i, db\<lparr>searches := searches db @ [\<lparr>search_id = i, search_term = term\<rparr>],
                    searches_seq := i\<rparr>))"

text \<open>\<^verbatim>\<open>INSERT OR IGNORE INTO jobs (job_id, company, description, title) VALUES (?, ?, ?, ?)\<close>\<close>

definition insertOrIgnoreJob :: "JobPosting \<Rightarrow> database \<Rightarrow> database" where
  "insertOrIgnoreJob job db =
     (if JobID job \<in> set (map JobID (jobs db)) then db
      else db\<lparr>jobs := jobs db @ [job]\<rparr>)"

text \<open>\<^verbatim>\<open>INSERT OR IGNORE INTO jobs_categories (job_id, category_id) VALUES (?, ?)\<close>\<close>

definition insertOrIgnoreJobCategory :: "string \<Rightarrow> int \<Rightarrow> database \<Rightarrow> database" where
  "insertOrIgnoreJobCategory jid cid db =
     (if \<lparr>jc_job_id = jid, jc_category_id = cid\<rparr> \<in> set (jobs_categories db) then db
      else db\<lparr>jobs_categories := jobs_categories db @ [\<lparr>jc_job_id = jid, jc_category_id = cid\<rparr>]\<rparr>)"

text \<open>
  \<^verbatim>\<open>INSERT INTO searches_jobs (search_id, job_id, first_seen, last_seen)
  VALUES (?, ?, ?, ?) ON CONFLICT(search_id, job_id) DO UPDATE SET last_seen = ?\<close>,
  the last three parameters being the timestamp.
\<close>

definition sameSearchJob :: "int \<Rightarrow> string \<Rightarrow> search_job_row \<Rightarrow> bool" where
  "sameSearchJob sid jid r = (sj_search_id r = sid \<and> sj_job_id r = jid)"

definition upsertSearchJob :: "int \<Rightarrow> string \<Rightarrow> string \<Rightarrow> database \<Rightarrow> database" where
  "upsertSearchJob sid jid timestamp db =
     (if list_ex (sameSearchJob sid jid) (searches_jobs db)
      then db\<lparr>searches_jobs :=
                map (\<lambda>r. if sameSearchJob sid jid r then r\<lparr>last_seen := timestamp\<rparr> else r)
                    (searches_jobs db)\<rparr>
      else db\<lparr>searches_jobs := searches_jobs db @
                [\<lparr>sj_search_id = sid, sj_job_id = jid,
                  first_seen = timestamp, last_seen = timestamp\<rparr>]\<rparr>)"

subsection \<open>The transaction\<close>

text \<open>
  The calls to the database are numbered in the order in which \<^verbatim>\<open>saveJobsToSQLite\<close>
  makes them: \<^verbatim>\<open>sql.Open\<close> is call 0, the \<^verbatim>\<open>PRAGMA\<close> call 1, the five
  \<^verbatim>\<open>CREATE TABLE\<close> calls 2 to 6, \<^verbatim>\<open>db.Begin\<close> call 7, the statements of the
  transaction follow from call 8 on, and \<^verbatim>\<open>tx.Commit\<close> is the last. The oracle
  \<open>fault\<close> tells which calls return an error. A transaction carries the number of the
  next call and its working copy of the tables.
\<close>

record transaction =
  calls :: nat
  work :: database

definition exec ::
  "(nat \<Rightarrow> bool) \<Rightarrow> save_error \<Rightarrow> (database \<Rightarrow> database) \<Rightarrow> transaction \<Rightarrow> save_error + transaction" where
  "exec fault err statement tx =
     (if fault (calls tx) then Inl err
      else Inr \<lparr>calls = Suc (calls tx), work = statement (work tx)\<rparr>)"

definition queryRow ::
  "(nat \<Rightarrow> bool) \<Rightarrow> save_error \<Rightarrow> (database \<Rightarrow> int \<times> database) \<Rightarrow> transaction \<Rightarrow>
   save_error + int \<times> transaction" where
  "queryRow fault err statement tx =
     (if fault (calls tx) then Inl err
      else case statement (work tx) of
             (v, db) \<Rightarrow> Inr (v, \<lparr>calls = Suc (calls tx), work = db\<rparr>))"

text \<open>Lines 403 to 430: the loop over the jobs of one search group.\<close>

fun saveJobs ::
  "(nat \<Rightarrow> bool) \<Rightarrow> string \<Rightarrow> int \<Rightarrow> int \<Rightarrow> JobPosting list \<Rightarrow> transaction \<Rightarrow>
   save_error + transaction" where
  "saveJobs fault timestamp categoryID searchID [] tx = Inr tx"
| "saveJobs fault timestamp categoryID searchID (job # rest) tx =
     (case exec fault (CouldNotInsertJob (JobID job)) (insertOrIgnoreJob job) tx of
        Inl err \<Rightarrow> Inl err
      | Inr tx1 \<Rightarrow>
     (case exec fault (CouldNotInsertJobCategory (JobID job) categoryID)
             (insertOrIgnoreJobCategory (JobID job) categoryID) tx1 of
        Inl err \<Rightarrow> Inl err
      | Inr tx2 \<Rightarrow>
     (case exec fault (CouldNotInsertSearchJob searchID (JobID job))
             (upsertSearchJob searchID (JobID job) timestamp) tx2 of
        Inl err \<Rightarrow> Inl err
      | Inr tx3 \<Rightarrow> saveJobs fault timestamp categoryID searchID rest tx3)))"

text \<open>Lines 392 to 431: the loop over the search groups of one category.\<close>

fun saveSearches ::
  "(nat \<Rightarrow> bool) \<Rightarrow> string \<Rightarrow> int \<Rightarrow> SearchGroup list \<Rightarrow> transaction \<Rightarrow>
   save_error + transaction" where
  "saveSearches fault timestamp categoryID [] tx = Inr tx"
| "saveSearches fault timestamp categoryID (sg # rest) tx =
     (case queryRow fault (CouldNotInsertSearchTerm (SearchTerm sg))
             (upsertSearch (SearchTerm sg)) tx of
        Inl err \<Rightarrow> Inl err
      | Inr (searchID, tx1) \<Rightarrow>
     (case saveJobs fault timestamp categoryID searchID (Jobs sg) tx1 of
        Inl err \<Rightarrow> Inl err
      | Inr tx2 \<Rightarrow> saveSearches fault timestamp categoryID rest tx2))"

text \<open>Lines 381 to 432: the loop over the categories.\<close>

fun saveCategories ::
  "(nat \<Rightarrow> bool) \<Rightarrow> string \<Rightarrow> JobCategoryGroup list \<Rightarrow> transaction \<Rightarrow>
   save_error + transaction" where
  "saveCategories fault timestamp [] tx = Inr tx"
| "saveCategories fault timestamp (jobGroup # rest) tx =
     (case queryRow fault (CouldNotInsertCategory (Category jobGroup))
             (upsertCategory (Category jobGroup)) tx of
        Inl err \<Rightarrow> Inl err
      | Inr (categoryID, tx1) \<Rightarrow>
     (case saveSearches fault timestamp categoryID (Searches jobGroup) tx1 of
        Inl err \<Rightarrow> Inl err
      | Inr tx2 \<Rightarrow> saveCategories fault timestamp rest tx2))"

text \<open>
  \<^verbatim>\<open>saveJobsToSQLite\<close>, from the tables on disk to the error returned and the tables on
  disk afterwards; \<open>timestamp\<close> is \<^verbatim>\<open>time.Now().Format(time.RFC3339)\<close>. The deferred
  \<^verbatim>\<open>tx.Rollback()\<close> drops the working copy on every return before a successful commit;
  a commit that fails leaves the tables as they were.
\<close>

definition saveJobsToSQLite ::
  "(nat \<Rightarrow> bool) \<Rightarrow> string \<Rightarrow> JobCategoryGroup list \<Rightarrow> database \<Rightarrow>
   save_error option \<times> database" where
  "saveJobsToSQLite fault timestamp jobGroups db =
     (if fault 0 then (Some CouldNotOpenDatabase, db)
      else if fault 1 then (Some CouldNotEnableForeignKeys, db)
      else if list_ex fault [2, 3, 4, 5, 6] then (Some CouldNotCreateTable, db)
      else if fault 7 then (Some CouldNotBeginTransaction, db)
      else
        case saveCategories fault timestamp jobGroups \<lparr>calls = 8, work = db\<rparr> of
          Inl err \<Rightarrow> (Some err, db)
        | Inr tx \<Rightarrow>
            if fault (calls tx) then (Some CouldNotCommitTransaction, db)
            else (None, work tx))"

text \<open>The number of statements a transaction for \<open>jobGroups\<close> executes when none fails.\<close>

definition searchWrites :: "SearchGroup \<Rightarrow> nat" where
  "searchWrites sg = 1 + 3 * length (Jobs sg)"

definition categoryWrites :: "JobCategoryGroup \<Rightarrow> nat" where
  "categoryWrites jobGroup = 1 + sum_list (map searchWrites (Searches jobGroup))"

definition writeCount :: "JobCategoryGroup list \<Rightarrow> nat" where
  "writeCount jobGroups = sum_list (map categoryWrites jobGroups)"

definition noFault :: "nat \<Rightarrow> bool" where
  "noFault n = False"

section \<open>Concrete inputs\<close>

definition urn :: "string \<Rightarrow> string" where
  "urn jid = ''urn:li:fsd_jobPostingCard:('' @ jid @ '',JOB_DETAILS)''"

definition page :: "string list \<Rightarrow> int \<Rightarrow> jobListingsResponse" where
  "page urns reported =
     \<lparr>JobCardPrefetchQueries = [\<lparr>PrefetchJobPostingCardUrns = urns\<rparr>],
      Paging_Total = reported, Paging_Start = 0, Paging_Count = 100\<rparr>"

text \<open>An upstream that answers every request with an empty page and a total of 1.\<close>

definition stuckUpstream :: upstream where
  "stuckUpstream n start = Decoded (page [] 1)"

text \<open>An empty page below the total, then the connection fails.\<close>

definition emptyThenError :: upstream where
  "emptyThenError n start = (if n = 0 then Decoded (page [] 1) else DoError)"

text \<open>Three pages of one identifier each; the second reports a total of 1, the others 3.\<close>

definition changingTotals :: upstream where
  "changingTotals n start =
     (if n = 0 then Decoded (page [urn ''a''] 3)
      else if n = 1 then Decoded (page [urn ''b''] 1)
      else Decoded (page [urn ''c''] 3))"

text \<open>Two pages, of two and of one identifier, both reporting a total of 3.\<close>

definition twoPages :: upstream where
  "twoPages n start =
     (if n = 0 then Decoded (page [urn ''1'', urn ''2''] 3) else Decoded (page [urn ''3''] 3))"

text \<open>A first page of two identifiers out of 3, then status 429.\<close>

definition pageThenStatus :: upstream where
  "pageThenStatus n start =
     (if n = 0 then Decoded (page [urn ''1'', urn ''2''] 3) else StatusNotOK 429)"

text \<open>An upstream whose connection always fails, and one with no result at all.\<close>

definition failingUpstream :: upstream where
  "failingUpstream n start = DoError"

definition noResults :: upstream where
  "noResults n start = Decoded (page [] 0)"

text \<open>A response that decodes to no prefetch query.\<close>

definition noQueries :: jobListingsResponse where
  "noQueries = \<lparr>JobCardPrefetchQueries = [], Paging_Total = 5, Paging_Start = 0, Paging_Count = 100\<rparr>"

definition noQueriesUpstream :: upstream where
  "noQueriesUpstream n start = Decoded noQueries"

text \<open>Three jobs, and the tree of the end-to-end example of the specification.\<close>

definition jobA :: JobPosting where
  "jobA = \<lparr>JobID = ''A'', Company = ''Acme'', Description = ''models'', Title = ''Data Scientist''\<rparr>"

definition jobB :: JobPosting where
  "jobB = \<lparr>JobID = ''B'', Company = ''Bolt'', Description = ''pipelines'', Title = ''ML Engineer''\<rparr>"

definition jobC :: JobPosting where
  "jobC = \<lparr>JobID = ''C'', Company = ''Core'', Description = ''statistics'', Title = ''Analyst''\<rparr>"

definition exampleGroups :: "JobCategoryGroup list" where
  "exampleGroups =
     [\<lparr>Category = ''Data Science'',
       Searches = [\<lparr>SearchTerm = ''data scientist'', Jobs = [jobA, jobB]\<rparr>,
                   \<lparr>SearchTerm = ''data science'', Jobs = [jobB, jobC]\<rparr>]\<rparr>]"

text \<open>The tables after a first run on the example at ten o'clock.\<close>

definition afterFirstRun :: database where
  "afterFirstRun =
     \<lparr>jobs = [jobA, jobB, jobC],
      categories = [\<lparr>category_id = 1, category_name = ''Data Science''\<rparr>],
      categories_seq = 1,
      jobs_categories =
        [\<lparr>jc_job_id = ''A'', jc_category_id = 1\<rparr>, \<lparr>jc_job_id = ''B'', jc_category_id = 1\<rparr>,
         \<lparr>jc_job_id = ''C'', jc_category_id = 1\<rparr>],
      searches = [\<lparr>search_id = 1, search_term = ''data scientist''\<rparr>,
                  \<lparr>search_id = 2, search_term = ''data science''\<rparr>],
      searches_seq = 2,
      searches_jobs =
        [\<lparr>sj_search_id = 1, sj_job_id = ''A'', first_seen = ''10:00'', last_seen = ''10:00''\<rparr>,
         \<lparr>sj_search_id = 1, sj_job_id = ''B'', first_seen = ''10:00'', last_seen = ''10:00''\<rparr>,
         \<lparr>sj_search_id = 2, sj_job_id = ''B'', first_seen = ''10:00'', last_seen = ''10:00''\<rparr>,
         \<lparr>sj_search_id = 2, sj_job_id = ''C'', first_seen = ''10:00'', last_seen = ''10:00''\<rparr>]\<rparr>"

text \<open>An oracle under which exactly the call \<open>k\<close> fails.\<close>

definition faultAt :: "nat \<Rightarrow> nat \<Rightarrow> bool" where
  "faultAt k n = (n = k)"


text \<open>The fetches of one search: the one for \<open>B\<close> is answered with status 429.\<close>

definition responseA :: jobPostingsResponse where
  "responseA = \<lparr>CompanyDetails_Company_Result_Name = ''Acme'', Description_Text = ''models'',
                 Response_Title = ''Data Scientist''\<rparr>"

definition responseC :: jobPostingsResponse where
  "responseC = \<lparr>CompanyDetails_Company_Result_Name = ''Core'', Description_Text = ''statistics'',
                 Response_Title = ''Analyst''\<rparr>"





text \<open>A search in which the fetch for \<open>B\<close> fails between two that succeed.\<close>

definition partialTask :: search_task where
  "partialTask =
     \<lparr>task_category = ''Data Science'', task_searchTerm = ''data scientist'',
      task_schedule = [(''C'', PostingDecoded responseC), (''B'', PostingStatusNotOK 429),
                       (''A'', PostingDecoded responseA)]\<rparr>"

definition afterPartialRun :: database where
  "afterPartialRun =
     \<lparr>jobs = [jobC, jobA],
      categories = [\<lparr>category_id = 1, category_name = ''Data Science''\<rparr>,
                    \<lparr>category_id = 2, category_name = ''Security''\<rparr>],
      categories_seq = 2,
      jobs_categories =
        [\<lparr>jc_job_id = ''C'', jc_category_id = 1\<rparr>, \<lparr>jc_job_id = ''A'', jc_category_id = 1\<rparr>],
      searches = [\<lparr>search_id = 1, search_term = ''data scientist''\<rparr>],
      searches_seq = 1,
      searches_jobs =
        [\<lparr>sj_search_id = 1, sj_job_id = ''C'', first_seen = ''10:00'', last_seen = ''10:00''\<rparr>,
         \<lparr>sj_search_id = 1, sj_job_id = ''A'', first_seen = ''10:00'', last_seen = ''10:00''\<rparr>]\<rparr>"

section \<open>A transaction without faults\<close>

text \<open>
  The tables that the statements for one job, one search group, one category and a whole
  tree leave when none of them fails. They are proved below to be what
  \<open>saveJobsToSQLite\<close> commits.
\<close>

definition jobStep :: "string \<Rightarrow> int \<Rightarrow> int \<Rightarrow> JobPosting \<Rightarrow> database \<Rightarrow> database" where
  "jobStep timestamp categoryID searchID job db =
     upsertSearchJob searchID (JobID job) timestamp
       (insertOrIgnoreJobCategory (JobID job) categoryID (insertOrIgnoreJob job db))"

definition searchStep :: "string \<Rightarrow> int \<Rightarrow> SearchGroup \<Rightarrow> database \<Rightarrow> database" where
  "searchStep timestamp categoryID sg db =
     (case upsertSearch (SearchTerm sg) db of
        (searchID, db1) \<Rightarrow> fold (jobStep timestamp categoryID searchID) (Jobs sg) db1)"

definition categoryStep :: "string \<Rightarrow> JobCategoryGroup \<Rightarrow> database \<Rightarrow> database" where
  "categoryStep timestamp jobGroup db =
     (case upsertCategory (Category jobGroup) db of
        (categoryID, db1) \<Rightarrow> fold (searchStep timestamp categoryID) (Searches jobGroup) db1)"

definition persist :: "string \<Rightarrow> JobCategoryGroup list \<Rightarrow> database \<Rightarrow> database" where
  "persist timestamp jobGroups db = fold (categoryStep timestamp) jobGroups db"

text \<open>The key of a search term in the table \<^verbatim>\<open>searches\<close>.\<close>

definition searchIdOf :: "database \<Rightarrow> string \<Rightarrow> int option" where
  "searchIdOf db term = map_option search_id (find (\<lambda>r. search_term r = term) (searches db))"

text \<open>The primary and unique keys of the schema hold.\<close>

definition searchJobKey :: "search_job_row \<Rightarrow> int \<times> string" where
  "searchJobKey r = (sj_search_id r, sj_job_id r)"

definition keysHold :: "database \<Rightarrow> bool" where
  "keysHold db =
     (distinct (map JobID (jobs db)) \<and>
      distinct (map search_id (searches db)) \<and>
      distinct (map search_term (searches db)) \<and>
      distinct (map searchJobKey (searches_jobs db)))"

text \<open>A property of the tables that every statement of a run at \<open>timestamp\<close> keeps.\<close>

definition kept :: "string \<Rightarrow> (database \<Rightarrow> bool) \<Rightarrow> bool" where
  "kept timestamp P =
     (\<forall>db. P db \<longrightarrow>
        (\<forall>job. P (insertOrIgnoreJob job db)) \<and>
        (\<forall>jid cid. P (insertOrIgnoreJobCategory jid cid db)) \<and>
        (\<forall>sid jid. P (upsertSearchJob sid jid timestamp db)) \<and>
        (\<forall>term. P (snd (upsertSearch term db))) \<and>
        (\<forall>name. P (snd (upsertCategory name db))))"

text \<open>
  The job is in \<^verbatim>\<open>jobs\<close>, and the search term has a key under which
  \<^verbatim>\<open>searches_jobs\<close> holds a row for the job that was last seen at \<open>timestamp\<close>.
\<close>

definition recorded :: "string \<Rightarrow> string \<Rightarrow> string \<Rightarrow> database \<Rightarrow> bool" where
  "recorded timestamp term jid db =
     (jid \<in> set (map JobID (jobs db)) \<and>
      (\<exists>sid. searchIdOf db term = Some sid \<and>
         (\<exists>r\<in>set (searches_jobs db). sameSearchJob sid jid r \<and> last_seen r = timestamp)))"

definition firstSeenAt :: "int \<Rightarrow> string \<Rightarrow> string \<Rightarrow> database \<Rightarrow> bool" where
  "firstSeenAt sid jid seen db =
     (\<exists>r\<in>set (searches_jobs db). sameSearchJob sid jid r \<and> first_seen r = seen)"

definition jobSeenAt :: "string \<Rightarrow> string \<Rightarrow> database \<Rightarrow> bool" where
  "jobSeenAt timestamp jid db =
     (\<forall>r\<in>set (searches_jobs db).
        sj_job_id r = jid \<longrightarrow> first_seen r = timestamp \<and> last_seen r = timestamp)"

text \<open>The errors of the five statements of the transaction.\<close>

fun writeError :: "save_error \<Rightarrow> bool" where
  "writeError (CouldNotInsertCategory name) = True"
| "writeError (CouldNotInsertSearchTerm term) = True"
| "writeError (CouldNotInsertJob jid) = True"
| "writeError (CouldNotInsertJobCategory jid cid) = True"
| "writeError (CouldNotInsertSearchJob sid jid) = True"
| "writeError err = False"

text \<open>The jobs of a schedule whose requests succeed, in the order of the schedule.\<close>

definition fetchedJobs :: "(JobID \<times> posting_outcome) list \<Rightarrow> JobPosting list" where
  "fetchedJobs schedule =
     concat (map (\<lambda>(jid, outcome). case jobPostings jid outcome of Inl err \<Rightarrow> [] | Inr job \<Rightarrow> [job])
                 schedule)"

text \<open>
  The table \<^verbatim>\<open>searches_jobs\<close> joined with \<^verbatim>\<open>searches\<close>: the pairs of a search
  term and a job identifier that the store associates.
\<close>

definition associations :: "database \<Rightarrow> (string \<times> string) list" where
  "associations db =
     concat (map (\<lambda>r. map (\<lambda>s. (search_term s, sj_job_id r))
                          (filter (\<lambda>s. search_id s = sj_search_id r) (searches db)))
                 (searches_jobs db))"

section \<open>Properties of the listing paginator\<close>

subsection \<open>One pass through the loop body\<close>

lemma loop_continue:
  assumes "up n start = Decoded p" and "JobCardPrefetchQueries p \<noteq> []"
    and "start + int (length (pageUrns p)) < Paging_Total p"
  shows "jobListings_loop up n start out =
         jobListings_loop up (Suc n) (start + int (length (pageUrns p)))
           (out @ map jobIdOfUrn (pageUrns p))"
  using assms
  by (subst jobListings_loop.simps) (simp add: pageUrns_def Let_def split: list.splits)

lemma loop_done:
  assumes "up n start = Decoded p" and "JobCardPrefetchQueries p \<noteq> []"
    and "Paging_Total p \<le> start + int (length (pageUrns p))"
  shows "jobListings_loop up n start out =
         Some \<lparr>sent = out @ map jobIdOfUrn (pageUrns p), exit = Done, requests = Suc n\<rparr>"
  using assms
  by (subst jobListings_loop.simps) (simp add: pageUrns_def Let_def split: list.splits)

lemma loop_panic:
  assumes "up n start = Decoded p" and "JobCardPrefetchQueries p = []"
  shows "jobListings_loop up n start out =
         Some \<lparr>sent = out, exit = IndexOutOfRange, requests = Suc n\<rparr>"
  using assms by (subst jobListings_loop.simps) simp

lemma loop_failed:
  assumes "up n start = e" and "e = DoError \<or> e = DecodeError \<or> (\<exists>c. e = StatusNotOK c)"
  shows "jobListings_loop up n start out = Some \<lparr>sent = out, exit = Failed e, requests = Suc n\<rparr>"
  using assms by (subst jobListings_loop.simps) auto

text \<open>Pages that do not end the loop are consumed one request each.\<close>

lemma loop_prefix:
  "served up n start ps \<Longrightarrow> unfinished start ps \<Longrightarrow>
   jobListings_loop up n start out =
   jobListings_loop up (n + length ps) (start + int (length (pagesUrns ps)))
     (out @ map jobIdOfUrn (pagesUrns ps))"
proof (induction ps arbitrary: n start out)
  case Nil
  then show ?case by (simp add: pagesUrns_def)
next
  case (Cons p ps)
  have "jobListings_loop up n start out =
        jobListings_loop up (Suc n) (start + int (length (pageUrns p)))
          (out @ map jobIdOfUrn (pageUrns p))"
    using Cons.prems by (intro loop_continue) simp_all
  also have "\<dots> = jobListings_loop up (Suc n + length ps)
        (start + int (length (pageUrns p)) + int (length (pagesUrns ps)))
        ((out @ map jobIdOfUrn (pageUrns p)) @ map jobIdOfUrn (pagesUrns ps))"
    using Cons.prems by (intro Cons.IH) simp_all
  finally show ?case by (simp add: pagesUrns_def add.assoc)
qed

text \<open>Pages that all report the total \<open>T\<close> and add up to it end the loop normally.\<close>

lemma loop_same_total:
  "ps \<noteq> [] \<Longrightarrow> served up n start ps \<Longrightarrow>
   \<forall>p\<in>set ps. JobCardPrefetchQueries p \<noteq> [] \<and> Paging_Total p = T \<Longrightarrow>
   start + int (length (pagesUrns ps)) = T \<Longrightarrow>
   \<exists>k. 1 \<le> k \<and> k \<le> length ps \<and>
       jobListings_loop up n start out =
       Some \<lparr>sent = out @ map jobIdOfUrn (pagesUrns ps), exit = Done, requests = n + k\<rparr>"
proof (induction ps arbitrary: n start out)
  case Nil
  then show ?case by simp
next
  case (Cons p ps)
  let ?start' = "start + int (length (pageUrns p))"
  let ?out' = "out @ map jobIdOfUrn (pageUrns p)"
  have up: "up n start = Decoded p" and ne: "JobCardPrefetchQueries p \<noteq> []"
    and tot: "Paging_Total p = T"
    using Cons.prems by simp_all
  have sum: "?start' + int (length (pagesUrns ps)) = T"
    using Cons.prems(4) by (simp add: pagesUrns_def)
  show ?case
  proof (cases "T \<le> ?start'")
    case True
    with sum have "length (pagesUrns ps) = 0" by linarith
    then have "pagesUrns ps = []" by simp
    moreover have "jobListings_loop up n start out = Some \<lparr>sent = ?out', exit = Done, requests = Suc n\<rparr>"
      using up ne tot True by (intro loop_done) simp_all
    ultimately have "jobListings_loop up n start out =
        Some \<lparr>sent = out @ map jobIdOfUrn (pagesUrns (p # ps)), exit = Done, requests = n + 1\<rparr>"
      by (simp add: pagesUrns_def)
    then show ?thesis by (intro exI[of _ 1]) simp
  next
    case False
    with sum have "ps \<noteq> []" by (auto simp: pagesUrns_def)
    moreover have "served up (Suc n) ?start' ps" using Cons.prems(2) by simp
    moreover have "\<forall>p\<in>set ps. JobCardPrefetchQueries p \<noteq> [] \<and> Paging_Total p = T"
      using Cons.prems(3) by simp
    ultimately obtain k where k: "1 \<le> k" "k \<le> length ps"
      "jobListings_loop up (Suc n) ?start' ?out' =
       Some \<lparr>sent = ?out' @ map jobIdOfUrn (pagesUrns ps), exit = Done, requests = Suc n + k\<rparr>"
      using Cons.IH[of "Suc n" ?start' ?out'] sum by blast
    have "jobListings_loop up n start out = jobListings_loop up (Suc n) ?start' ?out'"
      using up ne tot False by (intro loop_continue) simp_all
    with k(3) have "jobListings_loop up n start out =
        Some \<lparr>sent = out @ map jobIdOfUrn (pagesUrns (p # ps)), exit = Done, requests = n + Suc k\<rparr>"
      by (simp add: pagesUrns_def)
    with k(1,2) show ?thesis by (intro exI[of _ "Suc k"]) simp
  qed
qed

subsection \<open>Runs that never end, runs that never panic\<close>

lemma stuck_never_returns:
  assumes "jobListings_loop up n start out = Some r"
  shows "up = stuckUpstream \<longrightarrow> start < 1 \<longrightarrow> False"
proof (rule jobListings_loop.raw_induct
    [where P = "\<lambda>up n start out r. up = stuckUpstream \<longrightarrow> start < 1 \<longrightarrow> False", OF _ assms])
  fix loop :: "upstream \<Rightarrow> nat \<Rightarrow> int \<Rightarrow> JobID list \<Rightarrow> listing_run option"
  fix up n start out r
  assume IH: "\<And>up n start out r. loop up n start out = Some r \<Longrightarrow>
                up = stuckUpstream \<longrightarrow> start < 1 \<longrightarrow> False"
  assume body: "(case up n start of
        NewRequestError \<Rightarrow> Some \<lparr>sent = out, exit = Failed NewRequestError, requests = n\<rparr>
      | DoError \<Rightarrow> Some \<lparr>sent = out, exit = Failed DoError, requests = Suc n\<rparr>
      | StatusNotOK code \<Rightarrow> Some \<lparr>sent = out, exit = Failed (StatusNotOK code), requests = Suc n\<rparr>
      | DecodeError \<Rightarrow> Some \<lparr>sent = out, exit = Failed DecodeError, requests = Suc n\<rparr>
      | Decoded content \<Rightarrow>
          (case JobCardPrefetchQueries content of
             [] \<Rightarrow> Some \<lparr>sent = out, exit = IndexOutOfRange, requests = Suc n\<rparr>
           | q # _ \<Rightarrow>
               let out' = out @ map jobIdOfUrn (PrefetchJobPostingCardUrns q);
                   start' = start + int (length (PrefetchJobPostingCardUrns q))
               in if start' \<ge> Paging_Total content
                  then Some \<lparr>sent = out', exit = Done, requests = Suc n\<rparr>
                  else loop up (Suc n) start' out')) = Some r"
  show "up = stuckUpstream \<longrightarrow> start < 1 \<longrightarrow> False"
  proof (intro impI)
    assume u: "up = stuckUpstream" and s: "start < 1"
    from body u s have "loop up (Suc n) start out = Some r"
      by (simp add: stuckUpstream_def page_def)
    with IH u s show False by blast
  qed
qed

lemma never_panics:
  assumes "jobListings_loop up n start out = Some r"
  shows "(\<forall>m s p. up m s = Decoded p \<longrightarrow> JobCardPrefetchQueries p \<noteq> []) \<longrightarrow>
         exit r \<noteq> IndexOutOfRange"
proof (rule jobListings_loop.raw_induct
    [where P = "\<lambda>up n start out r.
       (\<forall>m s p. up m s = Decoded p \<longrightarrow> JobCardPrefetchQueries p \<noteq> []) \<longrightarrow>
       exit r \<noteq> IndexOutOfRange", OF _ assms])
  fix loop :: "upstream \<Rightarrow> nat \<Rightarrow> int \<Rightarrow> JobID list \<Rightarrow> listing_run option"
  fix up n start out r
  assume IH: "\<And>up n start out r. loop up n start out = Some r \<Longrightarrow>
     (\<forall>m s p. up m s = Decoded p \<longrightarrow> JobCardPrefetchQueries p \<noteq> []) \<longrightarrow>
     exit r \<noteq> IndexOutOfRange"
  assume body: "(case up n start of
        NewRequestError \<Rightarrow> Some \<lparr>sent = out, exit = Failed NewRequestError, requests = n\<rparr>
      | DoError \<Rightarrow> Some \<lparr>sent = out, exit = Failed DoError, requests = Suc n\<rparr>
      | StatusNotOK code \<Rightarrow> Some \<lparr>sent = out, exit = Failed (StatusNotOK code), requests = Suc n\<rparr>
      | DecodeError \<Rightarrow> Some \<lparr>sent = out, exit = Failed DecodeError, requests = Suc n\<rparr>
      | Decoded content \<Rightarrow>
          (case JobCardPrefetchQueries content of
             [] \<Rightarrow> Some \<lparr>sent = out, exit = IndexOutOfRange, requests = Suc n\<rparr>
           | q # _ \<Rightarrow>
               let out' = out @ map jobIdOfUrn (PrefetchJobPostingCardUrns q);
                   start' = start + int (length (PrefetchJobPostingCardUrns q))
               in if start' \<ge> Paging_Total content
                  then Some \<lparr>sent = out', exit = Done, requests = Suc n\<rparr>
                  else loop up (Suc n) start' out')) = Some r"
  show "(\<forall>m s p. up m s = Decoded p \<longrightarrow> JobCardPrefetchQueries p \<noteq> []) \<longrightarrow>
        exit r \<noteq> IndexOutOfRange"
  proof (intro impI)
    assume ne: "\<forall>m s p. up m s = Decoded p \<longrightarrow> JobCardPrefetchQueries p \<noteq> []"
    show "exit r \<noteq> IndexOutOfRange"
    proof (cases "up n start")
      case (Decoded p)
      with ne obtain q qs where q: "JobCardPrefetchQueries p = q # qs"
        by (cases "JobCardPrefetchQueries p") auto
      show ?thesis
      proof (cases "Paging_Total p \<le> start + int (length (PrefetchJobPostingCardUrns q))")
        case True
        with body Decoded q show ?thesis by (auto simp: Let_def)
      next
        case False
        with body Decoded q
        have "loop up (Suc n) (start + int (length (PrefetchJobPostingCardUrns q)))
                (out @ map jobIdOfUrn (PrefetchJobPostingCardUrns q)) = Some r"
          by (simp add: Let_def)
        with IH ne show ?thesis by blast
      qed
    qed (use body in auto)
  qed
qed

lemma jobIdOfUrn_urn_1 [simp]: "jobIdOfUrn (urn ''1'') = ''1''"
  and jobIdOfUrn_urn_2 [simp]: "jobIdOfUrn (urn ''2'') = ''2''"
  and jobIdOfUrn_urn_3 [simp]: "jobIdOfUrn (urn ''3'') = ''3''"
  by (simp_all add: jobIdOfUrn_def urn_def)

subsection \<open>Claims about the listing paginator\<close>

text \<open>
  Claim C1, as the code has it. The claim says that a page with no identifier while the
  running count is below the reported total ends the sequence with an
  UpstreamInconsistency error. The goroutine has no such outcome: on such a page it sends
  nothing, reports nothing, and goes on with the next request at the same offset, so that
  the run is whatever the following answers make of it.
\<close>

theorem jobListings_empty_page_requests_again:
  assumes "up n start = Decoded p"
    and "JobCardPrefetchQueries p = q # qs"
    and "PrefetchJobPostingCardUrns q = []"
    and "start < Paging_Total p"
  shows "jobListings_loop up n start out = jobListings_loop up (Suc n) start out"
  using loop_continue[of up n start p out] assms by (simp add: pageUrns_def)

theorem jobListings_empty_page_requests_again_witness:
  "emptyThenError 0 0 = Decoded (page [] 1) \<and>
   JobCardPrefetchQueries (page [] 1) = [\<lparr>PrefetchJobPostingCardUrns = []\<rparr>] \<and>
   (0::int) < Paging_Total (page [] 1) \<and>
   jobListings_loop emptyThenError 0 0 [] = jobListings_loop emptyThenError (Suc 0) 0 [] \<and>
   jobListings_loop emptyThenError (Suc 0) 0 [] =
     Some \<lparr>sent = [], exit = Failed DoError, requests = 2\<rparr>"
proof -
  have a: "emptyThenError 0 0 = Decoded (page [] 1)" by (simp add: emptyThenError_def)
  have b: "JobCardPrefetchQueries (page [] 1) = [\<lparr>PrefetchJobPostingCardUrns = []\<rparr>]"
    by (simp add: page_def)
  have c: "PrefetchJobPostingCardUrns \<lparr>PrefetchJobPostingCardUrns = []\<rparr> = []" by simp
  have d: "(0::int) < Paging_Total (page [] 1)" by (simp add: page_def)
  have e: "jobListings_loop emptyThenError (Suc 0) 0 [] =
     Some \<lparr>sent = [], exit = Failed DoError, requests = 2\<rparr>"
    by (subst jobListings_loop.simps) (simp add: emptyThenError_def)
  from jobListings_empty_page_requests_again
    [of emptyThenError 0 0 "page [] 1" "\<lparr>PrefetchJobPostingCardUrns = []\<rparr>" "[]" "[]"] a b c d e
  show ?thesis by simp
qed

text \<open>
  The claim C1 itself fails: against an upstream that keeps answering with an empty page
  and a total of 1, the goroutine never returns, so it neither ends the sequence nor
  reports an error.
\<close>

theorem jobListings_stuck_counterexample:
  "jobListings_goroutine stuckUpstream = None"
proof (cases "jobListings_goroutine stuckUpstream")
  case None
  then show ?thesis .
next
  case (Some r)
  then show ?thesis
    using stuck_never_returns[of stuckUpstream 0 0 "[]" r] by (simp add: jobListings_goroutine_def)
qed

text \<open>
  Claim C4, as the code has it: when the upstream serves the pages \<open>ps\<close> in order, every
  page has a first prefetch query and reports the same total \<open>T\<close>, and the identifier
  counts of the pages add up to \<open>T\<close>, then the goroutine ends normally and the caller
  receives exactly the identifiers of the pages, one for each URN, page by page and in the
  order within each page: \<open>T\<close> identifiers. The loop compares the running count with the
  total of the page it has just read, not with the total of the first page.
\<close>

theorem jobListings_yields_all_pages:
  assumes "ps \<noteq> []"
    and "served up 0 0 ps"
    and "\<forall>p\<in>set ps. JobCardPrefetchQueries p \<noteq> [] \<and> Paging_Total p = T"
    and "int (length (pagesUrns ps)) = T"
  shows "jobListings up = Some (map jobIdOfUrn (pagesUrns ps)) \<and>
         map_option exit (jobListings_goroutine up) = Some Done \<and>
         int (length (the (jobListings up))) = T"
proof -
  obtain k where "jobListings_loop up 0 0 [] =
      Some \<lparr>sent = [] @ map jobIdOfUrn (pagesUrns ps), exit = Done, requests = 0 + k\<rparr>"
    using loop_same_total[OF assms(1,2,3), of "[]"] assms(4) by auto
  then show ?thesis
    using assms(4) by (simp add: jobListings_def jobListings_goroutine_def)
qed

theorem jobListings_yields_all_pages_witness:
  "[page [urn ''1'', urn ''2''] 3, page [urn ''3''] 3] \<noteq> [] \<and>
   served twoPages 0 0 [page [urn ''1'', urn ''2''] 3, page [urn ''3''] 3] \<and>
   list_all (\<lambda>p. JobCardPrefetchQueries p \<noteq> [] \<and> Paging_Total p = 3)
     [page [urn ''1'', urn ''2''] 3, page [urn ''3''] 3] \<and>
   int (length (pagesUrns [page [urn ''1'', urn ''2''] 3, page [urn ''3''] 3])) = 3 \<and>
   jobListings twoPages = Some [''1'', ''2'', ''3''] \<and>
   map_option exit (jobListings_goroutine twoPages) = Some Done"
proof -
  let ?ps = "[page [urn ''1'', urn ''2''] 3, page [urn ''3''] 3]"
  have a: "?ps \<noteq> []" by simp
  have b: "served twoPages 0 0 ?ps"
    by (simp add: twoPages_def pageUrns_def page_def)
  have c: "\<forall>p\<in>set ?ps. JobCardPrefetchQueries p \<noteq> [] \<and> Paging_Total p = 3"
    by (simp add: page_def)
  have d: "int (length (pagesUrns ?ps)) = 3"
    by (simp add: pagesUrns_def pageUrns_def page_def)
  have e: "map jobIdOfUrn (pagesUrns ?ps) = [''1'', ''2'', ''3'']"
    by (simp add: pagesUrns_def pageUrns_def page_def)
  from jobListings_yields_all_pages[OF a b c d] b c d e show ?thesis by simp
qed

text \<open>
  The claim C4 itself, with the total of the first page, fails: three pages of one
  identifier each add up to the total 3 of the first page, but the second page reports a
  total of 1 and the loop stops there, after two identifiers.
\<close>

theorem jobListings_first_total_counterexample:
  "served changingTotals 0 0 [page [urn ''a''] 3, page [urn ''b''] 1, page [urn ''c''] 3] \<and>
   int (length (pagesUrns [page [urn ''a''] 3, page [urn ''b''] 1, page [urn ''c''] 3])) =
     Paging_Total (page [urn ''a''] 3) \<and>
   Paging_Total (page [urn ''a''] 3) = 3 \<and>
   jobListings changingTotals = Some [''a'', ''b'']"
  by (simp add: changingTotals_def pagesUrns_def pageUrns_def page_def jobListings_def
      jobListings_goroutine_def jobListings_loop.simps jobIdOfUrn_def urn_def)

text \<open>
  Claim C5, as the code has it: when the pages \<open>ps\<close> served so far did not end the loop
  and the next request ends in a transport error, a status other than 200 or a body that
  does not decode, the goroutine returns at once: it has made that one request more, it
  has sent the identifiers of \<open>ps\<close> and nothing else, and it closes the channel. The
  error is written to the log; the caller receives the identifiers and no error.
\<close>

theorem jobListings_error_ends_sequence:
  assumes "served up 0 0 ps"
    and "unfinished 0 ps"
    and "up (length ps) (int (length (pagesUrns ps))) = e"
    and "e = DoError \<or> e = DecodeError \<or> (\<exists>code. e = StatusNotOK code)"
  shows "jobListings_goroutine up =
           Some \<lparr>sent = map jobIdOfUrn (pagesUrns ps), exit = Failed e, requests = Suc (length ps)\<rparr> \<and>
         jobListings up = Some (map jobIdOfUrn (pagesUrns ps))"
proof -
  have "jobListings_loop up 0 0 [] =
        jobListings_loop up (0 + length ps) (0 + int (length (pagesUrns ps)))
          ([] @ map jobIdOfUrn (pagesUrns ps))"
    using assms(1,2) by (rule loop_prefix)
  also have "\<dots> = Some \<lparr>sent = map jobIdOfUrn (pagesUrns ps), exit = Failed e,
                         requests = Suc (length ps)\<rparr>"
    using loop_failed[of up "length ps" "int (length (pagesUrns ps))" e "map jobIdOfUrn (pagesUrns ps)"]
      assms(3,4) by simp
  finally show ?thesis by (simp add: jobListings_def jobListings_goroutine_def)
qed

theorem jobListings_error_ends_sequence_witness:
  "served pageThenStatus 0 0 [page [urn ''1'', urn ''2''] 3] \<and>
   unfinished 0 [page [urn ''1'', urn ''2''] 3] \<and>
   pageThenStatus 1 2 = StatusNotOK 429 \<and>
   jobListings_goroutine pageThenStatus =
     Some \<lparr>sent = [''1'', ''2''], exit = Failed (StatusNotOK 429), requests = 2\<rparr> \<and>
   jobListings pageThenStatus = Some [''1'', ''2'']"
proof -
  let ?ps = "[page [urn ''1'', urn ''2''] 3]"
  have a: "served pageThenStatus 0 0 ?ps" by (simp add: pageThenStatus_def)
  have b: "unfinished 0 ?ps" by (simp add: page_def pageUrns_def)
  have c: "pageThenStatus (length ?ps) (int (length (pagesUrns ?ps))) = StatusNotOK 429"
    by (simp add: pageThenStatus_def)
  have d: "StatusNotOK 429 = DoError \<or> StatusNotOK 429 = DecodeError \<or>
           (\<exists>code. StatusNotOK 429 = StatusNotOK code)" by simp
  have e: "map jobIdOfUrn (pagesUrns ?ps) = [''1'', ''2'']"
    by (simp add: pagesUrns_def pageUrns_def page_def)
  have f: "pageThenStatus 1 2 = StatusNotOK 429" by (simp add: pageThenStatus_def)
  from jobListings_error_ends_sequence[OF a b c d] a b e f show ?thesis by simp
qed

text \<open>
  The claim C5 itself fails where it says that the error is reported to the caller: a
  listing whose first request fails and a listing with no result hand the same value to
  the caller, an empty sequence on a closed channel.
\<close>

theorem jobListings_error_unreported_counterexample:
  "jobListings_goroutine failingUpstream = Some \<lparr>sent = [], exit = Failed DoError, requests = 1\<rparr> \<and>
   jobListings_goroutine noResults = Some \<lparr>sent = [], exit = Done, requests = 1\<rparr> \<and>
   jobListings failingUpstream = jobListings noResults"
  by (simp add: jobListings_def jobListings_goroutine_def jobListings_loop.simps
      failingUpstream_def noResults_def page_def)

text \<open>
  Claim C9: the loop body reads \<^verbatim>\<open>JobCardPrefetchQueries[0]\<close> without a check. On a
  decoded response with no prefetch query the goroutine panics with an index out of
  range, whatever else the response holds; on a decoded response with at least one, the
  pass through the body is defined: the identifiers of the first query are sent and the
  loop ends or goes on. A run panics only if some decoded response has no prefetch query.
\<close>

theorem jobListings_reads_first_query_unguarded:
  "(up1 n1 s1 = Decoded p1 \<and> JobCardPrefetchQueries p1 = [] \<longrightarrow>
      jobListings_loop up1 n1 s1 out1 =
        Some \<lparr>sent = out1, exit = IndexOutOfRange, requests = Suc n1\<rparr>) \<and>
   (up2 n2 s2 = Decoded p2 \<and> JobCardPrefetchQueries p2 = q # qs \<longrightarrow>
      jobListings_loop up2 n2 s2 out2 =
        (if Paging_Total p2 \<le> s2 + int (length (PrefetchJobPostingCardUrns q))
         then Some \<lparr>sent = out2 @ map jobIdOfUrn (PrefetchJobPostingCardUrns q),
                     exit = Done, requests = Suc n2\<rparr>
         else jobListings_loop up2 (Suc n2) (s2 + int (length (PrefetchJobPostingCardUrns q)))
                (out2 @ map jobIdOfUrn (PrefetchJobPostingCardUrns q)))) \<and>
   ((\<forall>m s p. up3 m s = Decoded p \<longrightarrow> JobCardPrefetchQueries p \<noteq> []) \<longrightarrow>
      (\<forall>r. jobListings_goroutine up3 = Some r \<longrightarrow> exit r \<noteq> IndexOutOfRange))"
proof (intro conjI impI allI)
  assume "up1 n1 s1 = Decoded p1 \<and> JobCardPrefetchQueries p1 = []"
  then show "jobListings_loop up1 n1 s1 out1 =
        Some \<lparr>sent = out1, exit = IndexOutOfRange, requests = Suc n1\<rparr>"
    using loop_panic by blast
next
  assume "up2 n2 s2 = Decoded p2 \<and> JobCardPrefetchQueries p2 = q # qs"
  then show "jobListings_loop up2 n2 s2 out2 =
        (if Paging_Total p2 \<le> s2 + int (length (PrefetchJobPostingCardUrns q))
         then Some \<lparr>sent = out2 @ map jobIdOfUrn (PrefetchJobPostingCardUrns q),
                     exit = Done, requests = Suc n2\<rparr>
         else jobListings_loop up2 (Suc n2) (s2 + int (length (PrefetchJobPostingCardUrns q)))
                (out2 @ map jobIdOfUrn (PrefetchJobPostingCardUrns q)))"
    by (subst jobListings_loop.simps) (simp add: Let_def)
next
  fix r
  assume "\<forall>m s p. up3 m s = Decoded p \<longrightarrow> JobCardPrefetchQueries p \<noteq> []"
    and "jobListings_goroutine up3 = Some r"
  then show "exit r \<noteq> IndexOutOfRange"
    using never_panics[of up3 0 0 "[]" r] by (simp add: jobListings_goroutine_def)
qed

theorem jobListings_reads_first_query_unguarded_witness:
  "noQueriesUpstream 0 0 = Decoded noQueries \<and> JobCardPrefetchQueries noQueries = [] \<and>
   jobListings_goroutine noQueriesUpstream = Some \<lparr>sent = [], exit = IndexOutOfRange, requests = 1\<rparr> \<and>
   twoPages 1 2 = Decoded (page [urn ''3''] 3) \<and>
   JobCardPrefetchQueries (page [urn ''3''] 3) = [\<lparr>PrefetchJobPostingCardUrns = [urn ''3'']\<rparr>] \<and>
   jobListings_loop twoPages 1 2 [''1'', ''2''] =
     Some \<lparr>sent = [''1'', ''2'', ''3''], exit = Done, requests = 2\<rparr> \<and>
   jobListings_goroutine twoPages = Some \<lparr>sent = [''1'', ''2'', ''3''], exit = Done, requests = 2\<rparr> \<and>
   exit \<lparr>sent = [''1'', ''2'', ''3''], exit = Done, requests = 2\<rparr> \<noteq> IndexOutOfRange"
proof -
  have a: "noQueriesUpstream 0 0 = Decoded noQueries \<and> JobCardPrefetchQueries noQueries = []"
    by (simp add: noQueriesUpstream_def noQueries_def)
  have b: "twoPages 1 2 = Decoded (page [urn ''3''] 3) \<and>
           JobCardPrefetchQueries (page [urn ''3''] 3) = [\<lparr>PrefetchJobPostingCardUrns = [urn ''3'']\<rparr>]"
    by (simp add: twoPages_def page_def)
  have c: "\<forall>m s p. twoPages m s = Decoded p \<longrightarrow> JobCardPrefetchQueries p \<noteq> []"
    by (simp add: twoPages_def page_def)
  have d: "jobListings_goroutine twoPages = Some \<lparr>sent = [''1'', ''2'', ''3''], exit = Done, requests = 2\<rparr>"
    by (simp add: jobListings_goroutine_def jobListings_loop.simps twoPages_def page_def)
  from jobListings_reads_first_query_unguarded
    [of noQueriesUpstream 0 0 noQueries "[]" twoPages 1 2 "page [urn ''3''] 3"
        "\<lparr>PrefetchJobPostingCardUrns = [urn ''3'']\<rparr>" "[]" "[''1'', ''2'']" twoPages]
    a b c d
  show ?thesis by (simp add: jobListings_goroutine_def page_def)
qed

section \<open>Properties of the fan-out and of the aggregation\<close>

lemma fetchJobs_searchGroup:
  "searchGroup (fetchJobs schedule run) =
   (searchGroup run)\<lparr>Jobs := Jobs (searchGroup run) @ fetchedJobs schedule\<rparr>"
proof (induction schedule arbitrary: run)
  case Nil
  then show ?case by (simp add: fetchedJobs_def)
next
  case (Cons t schedule)
  obtain jid outcome where t: "t = (jid, outcome)" by (cases t)
  show ?case
  proof (cases "jobPostings jid outcome")
    case (Inl err)
    with t Cons.IH show ?thesis by (simp add: fetchedJobs_def)
  next
    case (Inr job)
    with t Cons.IH show ?thesis by (simp add: fetchedJobs_def)
  qed
qed

lemma fetchJobs_logged_mono: "set (logged run) \<subseteq> set (logged (fetchJobs schedule run))"
proof (induction schedule arbitrary: run)
  case Nil
  then show ?case by simp
next
  case (Cons t schedule)
  obtain jid outcome where t: "t = (jid, outcome)" by (cases t)
  show ?case
  proof (cases "jobPostings jid outcome")
    case (Inl err)
    have "set (logged run) \<subseteq> set (logged (run\<lparr>logged := logged run @ [CouldNotGetJobPosting jid err]\<rparr>))"
      by auto
    also have "\<dots> \<subseteq> set (logged (fetchJobs schedule
        (run\<lparr>logged := logged run @ [CouldNotGetJobPosting jid err]\<rparr>)))"
      by (rule Cons.IH)
    finally show ?thesis using t Inl by simp
  next
    case (Inr job)
    have "set (logged run) \<subseteq> set (logged (fetchJobs schedule
        (run\<lparr>searchGroup := (searchGroup run)\<lparr>Jobs := Jobs (searchGroup run) @ [job]\<rparr>\<rparr>)))"
      using Cons.IH[of "run\<lparr>searchGroup := (searchGroup run)\<lparr>Jobs := Jobs (searchGroup run) @ [job]\<rparr>\<rparr>"]
      by simp
    then show ?thesis using t Inr by simp
  qed
qed

lemma fetchJobs_logs_failure:
  assumes "jobPostings jid outcome = Inl err"
  shows "CouldNotGetJobPosting jid err \<in> set (logged (fetchJobs (before @ (jid, outcome) # after) run))"
proof (induction before arbitrary: run)
  case Nil
  have "CouldNotGetJobPosting jid err \<in>
        set (logged (run\<lparr>logged := logged run @ [CouldNotGetJobPosting jid err]\<rparr>))" by simp
  then have "CouldNotGetJobPosting jid err \<in> set (logged (fetchJobs after
        (run\<lparr>logged := logged run @ [CouldNotGetJobPosting jid err]\<rparr>)))"
    using fetchJobs_logged_mono by blast
  then show ?case using assms by simp
next
  case (Cons t before)
  obtain j oc where t: "t = (j, oc)" by (cases t)
  show ?case using t Cons.IH by (cases "jobPostings j oc") simp_all
qed

lemma runSearch_searchGroup:
  "searchGroup (runSearch term schedule) = \<lparr>SearchTerm = term, Jobs = fetchedJobs schedule\<rparr>"
  by (simp add: runSearch_def fetchJobs_searchGroup)

lemma fetchedJobs_append: "fetchedJobs (xs @ ys) = fetchedJobs xs @ fetchedJobs ys"
  by (simp add: fetchedJobs_def)

lemma fetchedJobs_failed:
  "jobPostings jid outcome = Inl err \<Longrightarrow> fetchedJobs ((jid, outcome) # after) = fetchedJobs after"
  by (simp add: fetchedJobs_def)

lemma fetchedJobs_member:
  "(jid, outcome) \<in> set schedule \<Longrightarrow> jobPostings jid outcome = Inr job \<Longrightarrow>
   job \<in> set (fetchedJobs schedule)"
  by (force simp: fetchedJobs_def)

lemma collectJobGroups_append:
  "collectJobGroups cats (xs @ ys) =
   fold (\<lambda>t. mergeSearchGroup (task_category t)
               (searchGroup (runSearch (task_searchTerm t) (task_schedule t))))
        ys (collectJobGroups cats xs)"
  by (simp add: collectJobGroups_def)

lemma collectJobGroups_same_groups:
  assumes "searchGroup (runSearch (task_searchTerm t) (task_schedule t)) =
           searchGroup (runSearch (task_searchTerm t') (task_schedule t'))"
    and "task_category t = task_category t'"
  shows "collectJobGroups cats (xs @ t # ys) = collectJobGroups cats (xs @ t' # ys)"
  using assms by (simp add: collectJobGroups_append)



section \<open>Properties of the relational sink\<close>

subsection \<open>The statements, table by table\<close>

lemma insertOrIgnoreJob_tables [simp]:
  "jobs (insertOrIgnoreJob job db) =
     (if JobID job \<in> set (map JobID (jobs db)) then jobs db else jobs db @ [job])"
  "searches (insertOrIgnoreJob job db) = searches db"
  "searches_jobs (insertOrIgnoreJob job db) = searches_jobs db"
  "jobs_categories (insertOrIgnoreJob job db) = jobs_categories db"
  by (simp_all add: insertOrIgnoreJob_def)

lemma insertOrIgnoreJobCategory_tables [simp]:
  "jobs (insertOrIgnoreJobCategory jid cid db) = jobs db"
  "searches (insertOrIgnoreJobCategory jid cid db) = searches db"
  "searches_jobs (insertOrIgnoreJobCategory jid cid db) = searches_jobs db"
  by (simp_all add: insertOrIgnoreJobCategory_def)

lemma upsertSearchJob_tables [simp]:
  "jobs (upsertSearchJob sid jid ts db) = jobs db"
  "searches (upsertSearchJob sid jid ts db) = searches db"
  "jobs_categories (upsertSearchJob sid jid ts db) = jobs_categories db"
  by (simp_all add: upsertSearchJob_def)

lemma upsertSearch_tables [simp]:
  "jobs (snd (upsertSearch term db)) = jobs db"
  "searches_jobs (snd (upsertSearch term db)) = searches_jobs db"
  "jobs_categories (snd (upsertSearch term db)) = jobs_categories db"
  by (simp_all add: upsertSearch_def Let_def split: option.splits)

lemma upsertCategory_tables [simp]:
  "jobs (snd (upsertCategory name db)) = jobs db"
  "searches (snd (upsertCategory name db)) = searches db"
  "searches_jobs (snd (upsertCategory name db)) = searches_jobs db"
  "jobs_categories (snd (upsertCategory name db)) = jobs_categories db"
  by (simp_all add: upsertCategory_def Let_def split: option.splits)

lemma find_append_keep: "find P xs = Some x \<Longrightarrow> find P (xs @ ys) = Some x"
  by (induction xs) (auto split: if_splits)

lemma find_append_new: "find P xs = None \<Longrightarrow> P y \<Longrightarrow> find P (xs @ [y]) = Some y"
  by (induction xs) (auto split: if_splits)

lemma find_Some_set: "find P xs = Some x \<Longrightarrow> x \<in> set xs \<and> P x"
  by (induction xs) (auto split: if_splits)




lemma upsertSearch_id: "searchIdOf (snd (upsertSearch term db)) term = Some (fst (upsertSearch term db))"
  by (auto simp: upsertSearch_def searchIdOf_def Let_def find_append_new split: option.splits)

lemma upsertSearch_keeps_id:
  "searchIdOf db t = Some sid \<Longrightarrow> searchIdOf (snd (upsertSearch term db)) t = Some sid"
  by (auto simp: upsertSearch_def searchIdOf_def Let_def find_append_keep split: option.splits)


lemma upsertSearchJob_rows:
  "searches_jobs (upsertSearchJob sid jid ts db) =
     (if list_ex (sameSearchJob sid jid) (searches_jobs db)
      then map (\<lambda>r. if sameSearchJob sid jid r then r\<lparr>last_seen := ts\<rparr> else r) (searches_jobs db)
      else searches_jobs db @ [\<lparr>sj_search_id = sid, sj_job_id = jid, first_seen = ts, last_seen = ts\<rparr>])"
  by (simp add: upsertSearchJob_def)


lemma upsertSearchJob_seen:
  "\<exists>r\<in>set (searches_jobs (upsertSearchJob sid jid ts db)). sameSearchJob sid jid r \<and> last_seen r = ts"
proof (cases "list_ex (sameSearchJob sid jid) (searches_jobs db)")
  case True
  then obtain r where r: "r \<in> set (searches_jobs db)" "sameSearchJob sid jid r"
    by (auto simp: list_ex_iff)
  let ?u = "\<lambda>r. if sameSearchJob sid jid r then r\<lparr>last_seen := ts\<rparr> else r"
  have "?u r \<in> set (searches_jobs (upsertSearchJob sid jid ts db))"
    using True r(1) by (simp add: upsertSearchJob_rows)
  moreover have "sameSearchJob sid jid (?u r) \<and> last_seen (?u r) = ts"
    using r(2) by (simp add: sameSearchJob_def)
  ultimately show ?thesis by blast
next
  case False
  then show ?thesis by (simp add: upsertSearchJob_rows sameSearchJob_def)
qed

lemma upsertSearchJob_keeps_seen:
  assumes "r \<in> set (searches_jobs db)" "sameSearchJob s j r" "last_seen r = ts"
  shows "\<exists>r'\<in>set (searches_jobs (upsertSearchJob sid jid ts db)). sameSearchJob s j r' \<and> last_seen r' = ts"
proof (cases "list_ex (sameSearchJob sid jid) (searches_jobs db)")
  case True
  let ?u = "\<lambda>r. if sameSearchJob sid jid r then r\<lparr>last_seen := ts\<rparr> else r"
  have "?u r \<in> set (searches_jobs (upsertSearchJob sid jid ts db))"
    using True assms(1) by (simp add: upsertSearchJob_rows)
  moreover have "sameSearchJob s j (?u r) \<and> last_seen (?u r) = ts"
    using assms(2,3) by (simp add: sameSearchJob_def)
  ultimately show ?thesis by blast
next
  case False
  with assms show ?thesis by (auto simp: upsertSearchJob_rows)
qed


subsection \<open>What a transaction that succeeds has done\<close>

lemma saveJobs_Inr:
  "saveJobs fault ts cid sid js tx = Inr tx' \<Longrightarrow>
   work tx' = fold (jobStep ts cid sid) js (work tx) \<and>
   calls tx' = calls tx + 3 * length js \<and>
   (\<forall>i. calls tx \<le> i \<and> i < calls tx' \<longrightarrow> \<not> fault i)"
proof (induction js arbitrary: tx)
  case Nil
  then show ?case by auto
next
  case (Cons job js)
  let ?tx1 = "\<lparr>calls = Suc (calls tx), work = insertOrIgnoreJob job (work tx)\<rparr>"
  let ?tx2 = "\<lparr>calls = Suc (Suc (calls tx)),
               work = insertOrIgnoreJobCategory (JobID job) cid (insertOrIgnoreJob job (work tx))\<rparr>"
  let ?tx3 = "\<lparr>calls = Suc (Suc (Suc (calls tx))), work = jobStep ts cid sid job (work tx)\<rparr>"
  from Cons.prems have f: "\<not> fault (calls tx)" "\<not> fault (Suc (calls tx))"
      "\<not> fault (Suc (Suc (calls tx)))"
    and rest: "saveJobs fault ts cid sid js ?tx3 = Inr tx'"
    by (auto simp: exec_def jobStep_def split: if_splits)
  from Cons.IH[OF rest] have ih: "work tx' = fold (jobStep ts cid sid) js (jobStep ts cid sid job (work tx))"
    "calls tx' = Suc (Suc (Suc (calls tx))) + 3 * length js"
    "\<forall>i. Suc (Suc (Suc (calls tx))) \<le> i \<and> i < calls tx' \<longrightarrow> \<not> fault i"
    by simp_all
  have "\<forall>i. calls tx \<le> i \<and> i < calls tx' \<longrightarrow> \<not> fault i"
  proof (intro allI impI)
    fix i assume i: "calls tx \<le> i \<and> i < calls tx'"
    consider "i = calls tx" | "i = Suc (calls tx)" | "i = Suc (Suc (calls tx))"
      | "Suc (Suc (Suc (calls tx))) \<le> i" using i by linarith
    then show "\<not> fault i" using f ih(3) i by cases auto
  qed
  with ih show ?case by simp
qed

lemma saveJobs_Inl:
  "saveJobs fault ts cid sid js tx = Inl err \<Longrightarrow>
   writeError err \<and> (\<exists>i. calls tx \<le> i \<and> i < calls tx + 3 * length js \<and> fault i)"
proof (induction js arbitrary: tx)
  case Nil
  then show ?case by simp
next
  case (Cons job js)
  let ?tx3 = "\<lparr>calls = Suc (Suc (Suc (calls tx))), work = jobStep ts cid sid job (work tx)\<rparr>"
  consider "fault (calls tx)" | "fault (Suc (calls tx))" | "fault (Suc (Suc (calls tx)))"
    | "\<not> fault (calls tx)" "\<not> fault (Suc (calls tx))" "\<not> fault (Suc (Suc (calls tx)))"
    by blast
  then show ?case
  proof cases
    case 1
    with Cons.prems have "writeError err" by (auto simp: exec_def)
    with 1 show ?thesis by (intro conjI exI[of _ "calls tx"]) simp_all
  next
    case 2
    with Cons.prems have "writeError err" by (auto simp: exec_def split: if_splits)
    with 2 show ?thesis by (intro conjI exI[of _ "Suc (calls tx)"]) simp_all
  next
    case 3
    with Cons.prems have "writeError err" by (auto simp: exec_def split: if_splits)
    with 3 show ?thesis by (intro conjI exI[of _ "Suc (Suc (calls tx))"]) simp_all
  next
    case 4
    with Cons.prems have "saveJobs fault ts cid sid js ?tx3 = Inl err"
      by (simp add: exec_def jobStep_def)
    from Cons.IH[OF this] obtain i where "writeError err"
      "Suc (Suc (Suc (calls tx))) \<le> i" "i < Suc (Suc (Suc (calls tx))) + 3 * length js" "fault i"
      by auto
    then show ?thesis by (intro conjI exI[of _ i]) simp_all
  qed
qed

lemma saveSearches_Inr:
  "saveSearches fault ts cid sgs tx = Inr tx' \<Longrightarrow>
   work tx' = fold (searchStep ts cid) sgs (work tx) \<and>
   calls tx' = calls tx + sum_list (map searchWrites sgs) \<and>
   (\<forall>i. calls tx \<le> i \<and> i < calls tx' \<longrightarrow> \<not> fault i)"
proof (induction sgs arbitrary: tx)
  case Nil
  then show ?case by auto
next
  case (Cons sg sgs)
  let ?sid = "fst (upsertSearch (SearchTerm sg) (work tx))"
  let ?tx1 = "\<lparr>calls = Suc (calls tx), work = snd (upsertSearch (SearchTerm sg) (work tx))\<rparr>"
  from Cons.prems have f: "\<not> fault (calls tx)"
    by (auto simp: queryRow_def split: if_splits)
  with Cons.prems obtain tx2 where
    jobs: "saveJobs fault ts cid ?sid (Jobs sg) ?tx1 = Inr tx2"
    and rest: "saveSearches fault ts cid sgs tx2 = Inr tx'"
    by (auto simp: queryRow_def split: prod.splits sum.splits)
  from saveJobs_Inr[OF jobs] have j: "work tx2 = searchStep ts cid sg (work tx)"
    "calls tx2 = Suc (calls tx) + 3 * length (Jobs sg)"
    "\<forall>i. Suc (calls tx) \<le> i \<and> i < calls tx2 \<longrightarrow> \<not> fault i"
    by (simp_all add: searchStep_def split: prod.splits)
  from Cons.IH[OF rest] have ih: "work tx' = fold (searchStep ts cid) sgs (work tx2)"
    "calls tx' = calls tx2 + sum_list (map searchWrites sgs)"
    "\<forall>i. calls tx2 \<le> i \<and> i < calls tx' \<longrightarrow> \<not> fault i"
    by simp_all
  have "\<forall>i. calls tx \<le> i \<and> i < calls tx' \<longrightarrow> \<not> fault i"
  proof (intro allI impI)
    fix i assume i: "calls tx \<le> i \<and> i < calls tx'"
    consider "i = calls tx" | "Suc (calls tx) \<le> i" "i < calls tx2" | "calls tx2 \<le> i"
      using i by linarith
    then show "\<not> fault i" using f j(3) ih(3) i by cases auto
  qed
  with j ih show ?case by (simp add: searchWrites_def[of sg])
qed

lemma saveSearches_Inl:
  "saveSearches fault ts cid sgs tx = Inl err \<Longrightarrow>
   writeError err \<and> (\<exists>i. calls tx \<le> i \<and> i < calls tx + sum_list (map searchWrites sgs) \<and> fault i)"
proof (induction sgs arbitrary: tx)
  case Nil
  then show ?case by simp
next
  case (Cons sg sgs)
  let ?sid = "fst (upsertSearch (SearchTerm sg) (work tx))"
  let ?tx1 = "\<lparr>calls = Suc (calls tx), work = snd (upsertSearch (SearchTerm sg) (work tx))\<rparr>"
  show ?case
  proof (cases "fault (calls tx)")
    case True
    with Cons.prems have "writeError err" by (auto simp: queryRow_def)
    with True show ?thesis by (intro conjI exI[of _ "calls tx"]) (simp_all add: searchWrites_def[of sg])
  next
    case False
    show ?thesis
    proof (cases "saveJobs fault ts cid ?sid (Jobs sg) ?tx1")
      case (Inl e)
      with False Cons.prems have "e = err" by (auto simp: queryRow_def split: prod.splits)
      with saveJobs_Inl[OF Inl] obtain i where "writeError err"
        "Suc (calls tx) \<le> i" "i < Suc (calls tx) + 3 * length (Jobs sg)" "fault i"
        by auto
      then show ?thesis by (intro conjI exI[of _ i]) (simp_all add: searchWrites_def[of sg])
    next
      case (Inr tx2)
      with False Cons.prems have rest: "saveSearches fault ts cid sgs tx2 = Inl err"
        by (auto simp: queryRow_def split: prod.splits)
      from saveJobs_Inr[OF Inr] have c: "calls tx2 = Suc (calls tx) + 3 * length (Jobs sg)"
        by simp
      from Cons.IH[OF rest] obtain i where "writeError err"
        "calls tx2 \<le> i" "i < calls tx2 + sum_list (map searchWrites sgs)" "fault i"
        by auto
      with c show ?thesis by (intro conjI exI[of _ i]) (simp_all add: searchWrites_def[of sg])
    qed
  qed
qed

lemma saveCategories_Inr:
  "saveCategories fault ts jgs tx = Inr tx' \<Longrightarrow>
   work tx' = persist ts jgs (work tx) \<and>
   calls tx' = calls tx + writeCount jgs \<and>
   (\<forall>i. calls tx \<le> i \<and> i < calls tx' \<longrightarrow> \<not> fault i)"
proof (induction jgs arbitrary: tx)
  case Nil
  then show ?case by (auto simp: persist_def writeCount_def)
next
  case (Cons g jgs)
  let ?cid = "fst (upsertCategory (Category g) (work tx))"
  let ?tx1 = "\<lparr>calls = Suc (calls tx), work = snd (upsertCategory (Category g) (work tx))\<rparr>"
  from Cons.prems have f: "\<not> fault (calls tx)"
    by (auto simp: queryRow_def split: if_splits)
  with Cons.prems obtain tx2 where
    ss: "saveSearches fault ts ?cid (Searches g) ?tx1 = Inr tx2"
    and rest: "saveCategories fault ts jgs tx2 = Inr tx'"
    by (auto simp: queryRow_def split: prod.splits sum.splits)
  from saveSearches_Inr[OF ss] have j: "work tx2 = categoryStep ts g (work tx)"
    "calls tx2 = Suc (calls tx) + sum_list (map searchWrites (Searches g))"
    "\<forall>i. Suc (calls tx) \<le> i \<and> i < calls tx2 \<longrightarrow> \<not> fault i"
    by (simp_all add: categoryStep_def split: prod.splits)
  from Cons.IH[OF rest] have ih: "work tx' = persist ts jgs (work tx2)"
    "calls tx' = calls tx2 + writeCount jgs"
    "\<forall>i. calls tx2 \<le> i \<and> i < calls tx' \<longrightarrow> \<not> fault i"
    by simp_all
  have "\<forall>i. calls tx \<le> i \<and> i < calls tx' \<longrightarrow> \<not> fault i"
  proof (intro allI impI)
    fix i assume i: "calls tx \<le> i \<and> i < calls tx'"
    consider "i = calls tx" | "Suc (calls tx) \<le> i" "i < calls tx2" | "calls tx2 \<le> i"
      using i by linarith
    then show "\<not> fault i" using f j(3) ih(3) i by cases auto
  qed
  with j ih show ?case by (simp add: persist_def writeCount_def categoryWrites_def[of g])
qed

lemma saveCategories_Inl:
  "saveCategories fault ts jgs tx = Inl err \<Longrightarrow>
   writeError err \<and> (\<exists>i. calls tx \<le> i \<and> i < calls tx + writeCount jgs \<and> fault i)"
proof (induction jgs arbitrary: tx)
  case Nil
  then show ?case by simp
next
  case (Cons g jgs)
  let ?cid = "fst (upsertCategory (Category g) (work tx))"
  let ?tx1 = "\<lparr>calls = Suc (calls tx), work = snd (upsertCategory (Category g) (work tx))\<rparr>"
  show ?case
  proof (cases "fault (calls tx)")
    case True
    with Cons.prems have "writeError err" by (auto simp: queryRow_def)
    with True show ?thesis
      by (intro conjI exI[of _ "calls tx"]) (simp_all add: writeCount_def categoryWrites_def[of g])
  next
    case False
    show ?thesis
    proof (cases "saveSearches fault ts ?cid (Searches g) ?tx1")
      case (Inl e)
      with False Cons.prems have "e = err" by (auto simp: queryRow_def split: prod.splits)
      with saveSearches_Inl[OF Inl] obtain i where "writeError err"
        "Suc (calls tx) \<le> i" "i < Suc (calls tx) + sum_list (map searchWrites (Searches g))" "fault i"
        by auto
      then show ?thesis
        by (intro conjI exI[of _ i]) (simp_all add: writeCount_def categoryWrites_def[of g])
    next
      case (Inr tx2)
      with False Cons.prems have rest: "saveCategories fault ts jgs tx2 = Inl err"
        by (auto simp: queryRow_def split: prod.splits)
      from saveSearches_Inr[OF Inr]
      have c: "calls tx2 = Suc (calls tx) + sum_list (map searchWrites (Searches g))"
        by simp
      from Cons.IH[OF rest] obtain i where "writeError err"
        "calls tx2 \<le> i" "i < calls tx2 + writeCount jgs" "fault i"
        by auto
      with c show ?thesis
        by (intro conjI exI[of _ i]) (simp_all add: writeCount_def categoryWrites_def[of g])
    qed
  qed
qed

lemma saveJobsToSQLite_success:
  assumes "saveJobsToSQLite fault ts jgs db = (None, db')"
  shows "db' = persist ts jgs db"
proof (cases "saveCategories fault ts jgs \<lparr>calls = 8, work = db\<rparr>")
  case (Inl err)
  with assms show ?thesis by (simp add: saveJobsToSQLite_def split: if_splits)
next
  case (Inr tx)
  from saveCategories_Inr[OF Inr] have "work tx = persist ts jgs db" by simp
  with assms Inr show ?thesis by (simp add: saveJobsToSQLite_def split: if_splits)
qed

lemma saveJobsToSQLite_noFault:
  "saveJobsToSQLite noFault ts jgs db = (None, persist ts jgs db)"
proof (cases "saveCategories noFault ts jgs \<lparr>calls = 8, work = db\<rparr>")
  case (Inl err)
  from saveCategories_Inl[OF Inl] show ?thesis by (simp add: noFault_def)
next
  case (Inr tx)
  from saveCategories_Inr[OF Inr] have "work tx = persist ts jgs db" by simp
  with Inr show ?thesis by (simp add: saveJobsToSQLite_def noFault_def)
qed

lemma saveJobsToSQLite_error:
  assumes "saveJobsToSQLite fault ts jgs db = (Some err, db')"
  shows "db' = db"
  using assms by (auto simp: saveJobsToSQLite_def split: if_splits sum.splits)

subsection \<open>Properties that every statement keeps\<close>

lemma kept_jobStep: "kept ts P \<Longrightarrow> P db \<Longrightarrow> P (jobStep ts cid sid job db)"
  by (simp add: kept_def jobStep_def)

lemma kept_jobSteps: "kept ts P \<Longrightarrow> P db \<Longrightarrow> P (fold (jobStep ts cid sid) js db)"
  by (induction js arbitrary: db) (simp_all add: kept_jobStep)

lemma kept_searchStep:
  assumes "kept ts P" and "P db"
  shows "P (searchStep ts cid sg db)"
proof -
  have "P (snd (upsertSearch (SearchTerm sg) db))"
    using assms by (simp add: kept_def)
  with assms(1) have "P (fold (jobStep ts cid (fst (upsertSearch (SearchTerm sg) db))) (Jobs sg)
                 (snd (upsertSearch (SearchTerm sg) db)))"
    by (rule kept_jobSteps)
  then show ?thesis by (simp add: searchStep_def case_prod_beta)
qed

lemma kept_searchSteps: "kept ts P \<Longrightarrow> P db \<Longrightarrow> P (fold (searchStep ts cid) sgs db)"
  by (induction sgs arbitrary: db) (simp_all add: kept_searchStep)

lemma kept_categoryStep:
  assumes "kept ts P" and "P db"
  shows "P (categoryStep ts g db)"
proof -
  have "P (snd (upsertCategory (Category g) db))"
    using assms by (simp add: kept_def)
  with assms(1) have "P (fold (searchStep ts (fst (upsertCategory (Category g) db))) (Searches g)
                 (snd (upsertCategory (Category g) db)))"
    by (rule kept_searchSteps)
  then show ?thesis by (simp add: categoryStep_def case_prod_beta)
qed

lemma kept_persist: "kept ts P \<Longrightarrow> P db \<Longrightarrow> P (persist ts jgs db)"
  unfolding persist_def by (induction jgs arbitrary: db) (simp_all add: kept_categoryStep)

lemma searchIdOf_other [simp]:
  "searchIdOf (insertOrIgnoreJob job db) t = searchIdOf db t"
  "searchIdOf (insertOrIgnoreJobCategory j c db) t = searchIdOf db t"
  "searchIdOf (upsertSearchJob s j ts db) t = searchIdOf db t"
  "searchIdOf (snd (upsertCategory n db)) t = searchIdOf db t"
  by (simp_all add: searchIdOf_def)

lemma keysHold_other [simp]:
  "keysHold (insertOrIgnoreJobCategory j c db) = keysHold db"
  "keysHold (snd (upsertCategory n db)) = keysHold db"
  by (simp_all add: keysHold_def)






lemma firstSeenAt_other [simp]:
  "firstSeenAt sid jid seen (insertOrIgnoreJob job db) = firstSeenAt sid jid seen db"
  "firstSeenAt sid jid seen (insertOrIgnoreJobCategory j c db) = firstSeenAt sid jid seen db"
  "firstSeenAt sid jid seen (snd (upsertSearch t db)) = firstSeenAt sid jid seen db"
  "firstSeenAt sid jid seen (snd (upsertCategory n db)) = firstSeenAt sid jid seen db"
  by (simp_all add: firstSeenAt_def)



lemma recorded_other [simp]:
  "recorded ts term jid (insertOrIgnoreJobCategory j c db) = recorded ts term jid db"
  "recorded ts term jid (snd (upsertCategory n db)) = recorded ts term jid db"
  by (simp_all add: recorded_def)

lemma recorded_insertOrIgnoreJob:
  "recorded ts term jid db \<Longrightarrow> recorded ts term jid (insertOrIgnoreJob job db)"
  by (simp add: recorded_def)

lemma recorded_upsertSearch:
  assumes "recorded ts term jid db"
  shows "recorded ts term jid (snd (upsertSearch t db))"
proof -
  from assms obtain sid where "searchIdOf db term = Some sid"
    and r: "\<exists>r\<in>set (searches_jobs db). sameSearchJob sid jid r \<and> last_seen r = ts"
    unfolding recorded_def by blast
  then have "searchIdOf (snd (upsertSearch t db)) term = Some sid"
    by (simp add: upsertSearch_keeps_id)
  with r assms show ?thesis unfolding recorded_def by simp
qed

lemma recorded_upsertSearchJob:
  assumes "recorded ts term jid db"
  shows "recorded ts term jid (upsertSearchJob s j ts db)"
proof -
  from assms obtain sid r where sid: "searchIdOf db term = Some sid"
    and r: "r \<in> set (searches_jobs db)" "sameSearchJob sid jid r" "last_seen r = ts"
    unfolding recorded_def by blast
  from upsertSearchJob_keeps_seen[OF r]
  have "\<exists>r'\<in>set (searches_jobs (upsertSearchJob s j ts db)). sameSearchJob sid jid r' \<and> last_seen r' = ts" .
  with sid assms show ?thesis unfolding recorded_def by simp
qed

lemma kept_recorded: "kept ts (recorded ts term jid)"
  unfolding kept_def
  by (simp add: recorded_insertOrIgnoreJob recorded_upsertSearch recorded_upsertSearchJob)

lemma jobSeenAt_other [simp]:
  "jobSeenAt ts jid (insertOrIgnoreJob job db) = jobSeenAt ts jid db"
  "jobSeenAt ts jid (insertOrIgnoreJobCategory j c db) = jobSeenAt ts jid db"
  "jobSeenAt ts jid (snd (upsertSearch t db)) = jobSeenAt ts jid db"
  "jobSeenAt ts jid (snd (upsertCategory n db)) = jobSeenAt ts jid db"
  by (simp_all add: jobSeenAt_def)



subsection \<open>What a transaction records\<close>

lemma jobStep_records:
  assumes "searchIdOf db term = Some sid"
  shows "recorded ts term (JobID job) (jobStep ts cid sid job db)"
proof -
  have "JobID job \<in> set (map JobID (jobs (jobStep ts cid sid job db)))"
    by (simp add: jobStep_def)
  moreover have "searchIdOf (jobStep ts cid sid job db) term = Some sid"
    using assms by (simp add: jobStep_def)
  moreover have "\<exists>r\<in>set (searches_jobs (jobStep ts cid sid job db)).
      sameSearchJob sid (JobID job) r \<and> last_seen r = ts"
    unfolding jobStep_def by (rule upsertSearchJob_seen)
  ultimately show ?thesis unfolding recorded_def by blast
qed

lemma jobs_record:
  assumes "job \<in> set js" and "searchIdOf db term = Some sid"
  shows "recorded ts term (JobID job) (fold (jobStep ts cid sid) js db)"
  using assms
proof (induction js arbitrary: db)
  case Nil
  then show ?case by simp
next
  case (Cons j js)
  show ?case
  proof (cases "job = j")
    case True
    have "recorded ts term (JobID job) (jobStep ts cid sid j db)"
      using Cons.prems(2) True jobStep_records by simp
    with kept_recorded
    have "recorded ts term (JobID job) (fold (jobStep ts cid sid) js (jobStep ts cid sid j db))"
      by (rule kept_jobSteps)
    then show ?thesis by simp
  next
    case False
    with Cons.prems have "job \<in> set js" by simp
    moreover have "searchIdOf (jobStep ts cid sid j db) term = Some sid"
      using Cons.prems(2) by (simp add: jobStep_def)
    ultimately show ?thesis using Cons.IH by simp
  qed
qed

lemma searchStep_records:
  assumes "job \<in> set (Jobs sg)"
  shows "recorded ts (SearchTerm sg) (JobID job) (searchStep ts cid sg db)"
proof -
  have "recorded ts (SearchTerm sg) (JobID job)
          (fold (jobStep ts cid (fst (upsertSearch (SearchTerm sg) db))) (Jobs sg)
             (snd (upsertSearch (SearchTerm sg) db)))"
    using assms upsertSearch_id by (rule jobs_record)
  then show ?thesis by (simp add: searchStep_def case_prod_beta)
qed

lemma searches_record:
  assumes "sg \<in> set sgs" and "job \<in> set (Jobs sg)"
  shows "recorded ts (SearchTerm sg) (JobID job) (fold (searchStep ts cid) sgs db)"
  using assms
proof (induction sgs arbitrary: db)
  case Nil
  then show ?case by simp
next
  case (Cons s sgs)
  show ?case
  proof (cases "sg = s")
    case True
    have "recorded ts (SearchTerm sg) (JobID job) (searchStep ts cid s db)"
      using Cons.prems(2) True searchStep_records by simp
    with kept_recorded
    have "recorded ts (SearchTerm sg) (JobID job)
                 (fold (searchStep ts cid) sgs (searchStep ts cid s db))"
      by (rule kept_searchSteps)
    then show ?thesis by simp
  next
    case False
    with Cons.prems have "sg \<in> set sgs" by simp
    then show ?thesis using Cons.IH Cons.prems(2) by simp
  qed
qed

lemma categoryStep_records:
  assumes "sg \<in> set (Searches g)" and "job \<in> set (Jobs sg)"
  shows "recorded ts (SearchTerm sg) (JobID job) (categoryStep ts g db)"
proof -
  have "recorded ts (SearchTerm sg) (JobID job)
          (fold (searchStep ts (fst (upsertCategory (Category g) db))) (Searches g)
             (snd (upsertCategory (Category g) db)))"
    using assms by (rule searches_record)
  then show ?thesis by (simp add: categoryStep_def case_prod_beta)
qed

lemma persist_records:
  assumes "g \<in> set jgs" and "sg \<in> set (Searches g)" and "job \<in> set (Jobs sg)"
  shows "recorded ts (SearchTerm sg) (JobID job) (persist ts jgs db)"
  using assms(1)
proof (induction jgs arbitrary: db)
  case Nil
  then show ?case by simp
next
  case (Cons c jgs)
  show ?case
  proof (cases "g = c")
    case True
    have "recorded ts (SearchTerm sg) (JobID job) (categoryStep ts c db)"
      using assms(2,3) True categoryStep_records by simp
    with kept_recorded
    have "recorded ts (SearchTerm sg) (JobID job) (persist ts jgs (categoryStep ts c db))"
      by (rule kept_persist)
    then show ?thesis by (simp add: persist_def)
  next
    case False
    with Cons.prems have "g \<in> set jgs" by simp
    then show ?thesis using Cons.IH by (simp add: persist_def)
  qed
qed

subsection \<open>One row for one key\<close>










subsection \<open>Claims about the relational sink\<close>

lemma afterFirstRun_eval:
  "saveJobsToSQLite noFault ''10:00'' exampleGroups emptyDatabase = (None, afterFirstRun)"
  by code_simp

text \<open>
  Claim C6: the statements of one run are one transaction. When the run reaches the
  transaction and one of its statements fails (a category upsert, a search-term upsert, a
  job insert, a job-category insert or a search-job upsert), \<open>saveJobsToSQLite\<close> returns
  the error of a statement and the tables are the ones from before the run.
\<close>

theorem saveJobsToSQLite_all_or_nothing:
  assumes "\<forall>j<8. \<not> fault j"
    and "8 \<le> i" and "i < 8 + writeCount jobGroups" and "fault i"
  shows "\<exists>err. writeError err \<and>
           saveJobsToSQLite fault timestamp jobGroups db = (Some err, db)"
proof (cases "saveCategories fault timestamp jobGroups \<lparr>calls = 8, work = db\<rparr>")
  case (Inl err)
  from saveCategories_Inl[OF Inl] have "writeError err" by simp
  moreover have "saveJobsToSQLite fault timestamp jobGroups db = (Some err, db)"
    using assms(1) Inl by (simp add: saveJobsToSQLite_def)
  ultimately show ?thesis by blast
next
  case (Inr tx)
  from saveCategories_Inr[OF Inr] have "\<not> fault i" using assms(2,3) by simp
  with assms(4) show ?thesis by simp
qed

theorem saveJobsToSQLite_all_or_nothing_witness:
  "list_all (\<lambda>j. \<not> faultAt 12 j) [0, 1, 2, 3, 4, 5, 6, 7] \<and>
   (8::nat) \<le> 12 \<and> 12 < 8 + writeCount exampleGroups \<and> faultAt 12 12 \<and>
   writeError (CouldNotInsertSearchJob 1 ''A'') \<and>
   saveJobsToSQLite (faultAt 12) ''11:00'' exampleGroups afterFirstRun =
     (Some (CouldNotInsertSearchJob 1 ''A''), afterFirstRun)"
proof -
  have a: "\<forall>j<8. \<not> faultAt 12 j" by (simp add: faultAt_def)
  have b: "(8::nat) \<le> 12" by simp
  have c: "12 < 8 + writeCount exampleGroups"
    by (simp add: writeCount_def categoryWrites_def searchWrites_def exampleGroups_def)
  have d: "faultAt 12 12" by (simp add: faultAt_def)
  have e: "fst (saveJobsToSQLite (faultAt 12) ''11:00'' exampleGroups afterFirstRun) =
           Some (CouldNotInsertSearchJob 1 ''A'')"
    by code_simp
  from saveJobsToSQLite_all_or_nothing[OF a b c d, of "''11:00''" afterFirstRun]
  obtain err where "saveJobsToSQLite (faultAt 12) ''11:00'' exampleGroups afterFirstRun =
      (Some err, afterFirstRun)" by blast
  with e have "saveJobsToSQLite (faultAt 12) ''11:00'' exampleGroups afterFirstRun =
     (Some (CouldNotInsertSearchJob 1 ''A''), afterFirstRun)" by simp
  with c d show ?thesis by (simp add: faultAt_def)
qed

lemmas statement_defs =
  upsertCategory_def upsertSearch_def insertOrIgnoreJob_def insertOrIgnoreJobCategory_def
  upsertSearchJob_def sameSearchJob_def nextRowid_def Let_def

lemmas persist_defs =
  persist_def categoryStep_def searchStep_def jobStep_def emptyDatabase_def

text \<open>
  Claim C8: two search terms of one category find the jobs \<open>a\<close>, \<open>b\<close> and \<open>b\<close>, \<open>c\<close>
  (the second fetch of \<open>b\<close> is \<open>b'\<close>, with the same identifier), in whatever order the
  fetches of each search complete. After a run that succeeds on an empty store there are
  3 rows in \<^verbatim>\<open>jobs\<close>, one for each identifier, 2 rows in \<^verbatim>\<open>searches\<close>, and 4 rows in
  \<^verbatim>\<open>searches_jobs\<close>, which associate the first term with \<open>a\<close> and \<open>b\<close> and the second
  with \<open>b\<close> and \<open>c\<close>: the jobs of the category are the union of the jobs of its searches.
\<close>

theorem saveJobsToSQLite_overlapping_searches:
  assumes "JobID a \<noteq> JobID b" and "JobID b \<noteq> JobID c" and "JobID a \<noteq> JobID c"
    and "JobID b' = JobID b" and "term1 \<noteq> term2"
    and "js1 = [a, b] \<or> js1 = [b, a]" and "js2 = [b', c] \<or> js2 = [c, b']"
    and "saveJobsToSQLite fault timestamp
           [\<lparr>Category = category,
             Searches = [\<lparr>SearchTerm = term1, Jobs = js1\<rparr>, \<lparr>SearchTerm = term2, Jobs = js2\<rparr>]\<rparr>]
           emptyDatabase = (None, db)"
  shows "length (jobs db) = 3 \<and>
         set (map JobID (jobs db)) = {JobID a, JobID b, JobID c} \<and>
         map search_term (searches db) = [term1, term2] \<and>
         length (searches_jobs db) = 4 \<and>
         length (associations db) = 4 \<and>
         set (associations db) =
           {(term1, JobID a), (term1, JobID b), (term2, JobID b), (term2, JobID c)} \<and>
         length (jobs_categories db) = 3"
proof -
  let ?tree = "\<lambda>xs ys. [\<lparr>Category = category,
      Searches = [\<lparr>SearchTerm = term1, Jobs = xs\<rparr>, \<lparr>SearchTerm = term2, Jobs = ys\<rparr>]\<rparr>]"
  have db: "db = persist timestamp (?tree js1 js2) emptyDatabase"
    using assms(8) by (rule saveJobsToSQLite_success)
  have ne: "JobID b \<noteq> JobID a" "JobID c \<noteq> JobID b" "JobID c \<noteq> JobID a" "term2 \<noteq> term1"
    using assms(1,2,3,5) by auto
  consider "js1 = [a, b]" "js2 = [b', c]" | "js1 = [a, b]" "js2 = [c, b']"
    | "js1 = [b, a]" "js2 = [b', c]" | "js1 = [b, a]" "js2 = [c, b']"
    using assms(6,7) by blast
  then show ?thesis
  proof cases
    case 1
    with db assms(1-5) ne show ?thesis
      by (simp add: persist_defs statement_defs associations_def; blast)
  next
    case 2
    with db assms(1-5) ne show ?thesis
      by (simp add: persist_defs statement_defs associations_def; blast)
  next
    case 3
    with db assms(1-5) ne show ?thesis
      by (simp add: persist_defs statement_defs associations_def; blast)
  next
    case 4
    with db assms(1-5) ne show ?thesis
      by (simp add: persist_defs statement_defs associations_def; blast)
  qed
qed


theorem saveJobsToSQLite_overlapping_searches_witness:
  "JobID jobA \<noteq> JobID jobB \<and> JobID jobB \<noteq> JobID jobC \<and> JobID jobA \<noteq> JobID jobC \<and>
   ''data scientist'' \<noteq> ''data science'' \<and>
   saveJobsToSQLite noFault ''10:00'' exampleGroups emptyDatabase = (None, afterFirstRun) \<and>
   length (jobs afterFirstRun) = 3 \<and>
   set (map JobID (jobs afterFirstRun)) = {''A'', ''B'', ''C''} \<and>
   map search_term (searches afterFirstRun) = [''data scientist'', ''data science''] \<and>
   length (searches_jobs afterFirstRun) = 4 \<and>
   length (associations afterFirstRun) = 4 \<and>
   set (associations afterFirstRun) =
     {(''data scientist'', ''A''), (''data scientist'', ''B''),
      (''data science'', ''B''), (''data science'', ''C'')} \<and>
   length (jobs_categories afterFirstRun) = 3"
proof -
  have a: "JobID jobA \<noteq> JobID jobB" and b: "JobID jobB \<noteq> JobID jobC"
    and c: "JobID jobA \<noteq> JobID jobC" and d: "JobID jobB = JobID jobB"
    by (simp_all add: jobA_def jobB_def jobC_def)
  have e: "''data scientist'' \<noteq> ''data science''" by simp
  have f: "[jobA, jobB] = [jobA, jobB] \<or> [jobA, jobB] = [jobB, jobA]"
    and g: "[jobB, jobC] = [jobB, jobC] \<or> [jobB, jobC] = [jobC, jobB]" by simp_all
  have h: "saveJobsToSQLite noFault ''10:00''
      [\<lparr>Category = ''Data Science'',
        Searches = [\<lparr>SearchTerm = ''data scientist'', Jobs = [jobA, jobB]\<rparr>,
                    \<lparr>SearchTerm = ''data science'', Jobs = [jobB, jobC]\<rparr>]\<rparr>]
      emptyDatabase = (None, afterFirstRun)"
    using afterFirstRun_eval by (simp add: exampleGroups_def)
  have ids: "JobID jobA = ''A''" "JobID jobB = ''B''" "JobID jobC = ''C''"
    by (simp_all add: jobA_def jobB_def jobC_def)
  from saveJobsToSQLite_overlapping_searches[OF a b c d e f g h] a b c e afterFirstRun_eval
  show ?thesis by (simp only: ids) simp
qed





section \<open>Claims about the fan-out, the aggregation and the flat sink\<close>




lemma appendSearchGroup_categories:
  "map Category (appendSearchGroup c sg jgs) = map Category jgs"
  by (induction jgs) simp_all

lemma appendSearchGroup_keeps:
  "g \<in> set jgs \<Longrightarrow> sg \<in> set (Searches g) \<Longrightarrow>
   \<exists>g'\<in>set (appendSearchGroup c sg' jgs). sg \<in> set (Searches g')"
proof (induction jgs)
  case Nil
  then show ?case by simp
next
  case (Cons x jgs)
  show ?case
  proof (cases "Category x = c")
    case True
    show ?thesis
    proof (cases "g = x")
      case True
      with Cons.prems(2) \<open>Category x = c\<close> show ?thesis by simp
    next
      case False
      with Cons.prems have "g \<in> set jgs" by simp
      with Cons.prems(2) \<open>Category x = c\<close> show ?thesis by auto
    qed
  next
    case False
    show ?thesis
    proof (cases "g = x")
      case True
      with Cons.prems(2) \<open>Category x \<noteq> c\<close> show ?thesis by simp
    next
      case False
      with Cons.prems have "g \<in> set jgs" by simp
      from Cons.IH[OF this Cons.prems(2)] \<open>Category x \<noteq> c\<close> show ?thesis by simp
    qed
  qed
qed

lemma appendSearchGroup_adds:
  "c \<in> set (map Category jgs) \<Longrightarrow> \<exists>g\<in>set (appendSearchGroup c sg jgs). sg \<in> set (Searches g)"
proof (induction jgs)
  case Nil
  then show ?case by simp
next
  case (Cons x jgs)
  show ?case
  proof (cases "Category x = c")
    case True
    then show ?thesis by simp
  next
    case False
    with Cons.prems have "c \<in> set (map Category jgs)" by auto
    from Cons.IH[OF this] False show ?thesis by simp
  qed
qed

lemma mergeSearchGroup_categories:
  "map Category (mergeSearchGroup c sg jgs) = map Category jgs"
  by (simp add: mergeSearchGroup_def appendSearchGroup_categories)

lemma mergeSearchGroup_keeps:
  "g \<in> set jgs \<Longrightarrow> sg \<in> set (Searches g) \<Longrightarrow>
   \<exists>g'\<in>set (mergeSearchGroup c sg' jgs). sg \<in> set (Searches g')"
  using appendSearchGroup_keeps[of g jgs sg c sg'] by (auto simp: mergeSearchGroup_def)

lemma mergeTasks_categories:
  "map Category (fold (\<lambda>t. mergeSearchGroup (task_category t)
      (searchGroup (runSearch (task_searchTerm t) (task_schedule t)))) tasks jgs) = map Category jgs"
  by (induction tasks arbitrary: jgs) (simp_all add: mergeSearchGroup_categories)

lemma mergeTasks_keeps:
  "g \<in> set jgs \<Longrightarrow> sg \<in> set (Searches g) \<Longrightarrow>
   \<exists>g'\<in>set (fold (\<lambda>t. mergeSearchGroup (task_category t)
      (searchGroup (runSearch (task_searchTerm t) (task_schedule t)))) tasks jgs).
     sg \<in> set (Searches g')"
proof (induction tasks arbitrary: g jgs)
  case Nil
  then show ?case by auto
next
  case (Cons t tasks)
  let ?sg' = "searchGroup (runSearch (task_searchTerm t) (task_schedule t))"
  from mergeSearchGroup_keeps[OF Cons.prems, of "task_category t" ?sg']
  obtain g' where "g' \<in> set (mergeSearchGroup (task_category t) ?sg' jgs)" "sg \<in> set (Searches g')"
    by blast
  from Cons.IH[OF this] show ?case by simp
qed

lemma collectJobGroups_categories:
  "map Category (collectJobGroups cats tasks) = map CategoryName cats"
  by (simp add: collectJobGroups_def mergeTasks_categories initJobGroups_def comp_def)

lemma collectJobGroups_holds:
  assumes "task_category t \<in> set (map CategoryName cats)"
    and "fetchedJobs (task_schedule t) \<noteq> []"
  shows "\<exists>g\<in>set (collectJobGroups cats (earlier @ t # later)).
           searchGroup (runSearch (task_searchTerm t) (task_schedule t)) \<in> set (Searches g)"
proof -
  let ?sg = "searchGroup (runSearch (task_searchTerm t) (task_schedule t))"
  have "task_category t \<in> set (map Category (collectJobGroups cats earlier))"
    using assms(1) by (simp only: collectJobGroups_categories)
  then have "\<exists>g\<in>set (appendSearchGroup (task_category t) ?sg (collectJobGroups cats earlier)).
      ?sg \<in> set (Searches g)"
    by (rule appendSearchGroup_adds)
  moreover have "mergeSearchGroup (task_category t) ?sg (collectJobGroups cats earlier) =
      appendSearchGroup (task_category t) ?sg (collectJobGroups cats earlier)"
    using assms(2) by (simp add: mergeSearchGroup_def runSearch_searchGroup)
  ultimately obtain g where g: "g \<in> set (mergeSearchGroup (task_category t) ?sg
      (collectJobGroups cats earlier))" "?sg \<in> set (Searches g)"
    by auto
  from mergeTasks_keeps[OF g, of later] show ?thesis
    by (simp add: collectJobGroups_append)
qed

lemma recorded_association:
  assumes "recorded ts term jid db"
  shows "(term, jid) \<in> set (associations db)"
proof -
  from assms obtain sid r where sid: "searchIdOf db term = Some sid"
    and r: "r \<in> set (searches_jobs db)" "sameSearchJob sid jid r"
    unfolding recorded_def by blast
  from sid obtain s where s: "find (\<lambda>x. search_term x = term) (searches db) = Some s"
      "search_id s = sid"
    unfolding searchIdOf_def by auto
  from find_Some_set[OF s(1)] have m: "s \<in> set (searches db)" "search_term s = term" by simp_all
  from r(2) s(2) have "search_id s = sj_search_id r" "sj_job_id r = jid"
    by (simp_all add: sameSearchJob_def)
  with m r(1) show ?thesis
    unfolding associations_def by force
qed

text \<open>
  Claim C7: in the schedule of one search, the fetch for \<open>jid\<close> fails and the fetch of a
  sibling succeeds with \<open>job'\<close>. The failure is logged; the group is the one the search
  has without the failed fetch, namely the jobs of the other fetches in the order in
  which they complete, and \<open>job'\<close> is among them; and so are the tree and what the
  relational sink is given to persist, wherever the search stands among the other
  searches. When the category is one of the configured ones and the save succeeds,
  \<open>job'\<close> has its row in \<^verbatim>\<open>jobs\<close> and is associated with the search term.
\<close>

theorem fetch_failure_leaves_siblings:
  assumes "jobPostings jid outcome = Inl err"
    and "(jid', outcome') \<in> set (before @ after)"
    and "jobPostings jid' outcome' = Inr job'"
    and "category \<in> set (map CategoryName cats)"
    and "saveJobsToSQLite fault timestamp
           (collectJobGroups cats
              (earlier @ \<lparr>task_category = category, task_searchTerm = searchTerm,
                          task_schedule = before @ (jid, outcome) # after\<rparr> # later)) db =
         (None, saved)"
  shows "CouldNotGetJobPosting jid err \<in>
           set (logged (runSearch searchTerm (before @ (jid, outcome) # after))) \<and>
         searchGroup (runSearch searchTerm (before @ (jid, outcome) # after)) =
           searchGroup (runSearch searchTerm (before @ after)) \<and>
         Jobs (searchGroup (runSearch searchTerm (before @ (jid, outcome) # after))) =
           fetchedJobs before @ fetchedJobs after \<and>
         job' \<in> set (Jobs (searchGroup (runSearch searchTerm (before @ (jid, outcome) # after)))) \<and>
         collectJobGroups cats
           (earlier @ \<lparr>task_category = category, task_searchTerm = searchTerm,
                       task_schedule = before @ (jid, outcome) # after\<rparr> # later) =
         collectJobGroups cats
           (earlier @ \<lparr>task_category = category, task_searchTerm = searchTerm,
                       task_schedule = before @ after\<rparr> # later) \<and>
         saveJobsToSQLite fault timestamp
           (collectJobGroups cats
              (earlier @ \<lparr>task_category = category, task_searchTerm = searchTerm,
                          task_schedule = before @ after\<rparr> # later)) db = (None, saved) \<and>
         JobID job' \<in> set (map JobID (jobs saved)) \<and>
         (searchTerm, JobID job') \<in> set (associations saved)"
proof -
  let ?with = "before @ (jid, outcome) # after"
  let ?t = "\<lparr>task_category = category, task_searchTerm = searchTerm, task_schedule = ?with\<rparr>"
  let ?sg = "searchGroup (runSearch searchTerm ?with)"
  have fetched: "fetchedJobs ?with = fetchedJobs (before @ after)"
    using assms(1) by (simp add: fetchedJobs_append fetchedJobs_failed)
  have group: "?sg = searchGroup (runSearch searchTerm (before @ after))"
    using fetched by (simp add: runSearch_searchGroup)
  have jobs: "Jobs ?sg = fetchedJobs before @ fetchedJobs after"
    using fetched by (simp add: runSearch_searchGroup fetchedJobs_append)
  have sibling: "job' \<in> set (Jobs ?sg)"
    using fetchedJobs_member[OF assms(2,3)] fetched by (simp add: runSearch_searchGroup)
  have log: "CouldNotGetJobPosting jid err \<in> set (logged (runSearch searchTerm ?with))"
    unfolding runSearch_def using assms(1) by (rule fetchJobs_logs_failure)
  have tree: "collectJobGroups cats (earlier @ ?t # later) =
         collectJobGroups cats
           (earlier @ \<lparr>task_category = category, task_searchTerm = searchTerm,
                       task_schedule = before @ after\<rparr> # later)"
    using group by (intro collectJobGroups_same_groups) simp_all
  have "fetchedJobs (task_schedule ?t) \<noteq> []"
    using sibling by (auto simp: runSearch_searchGroup)
  moreover have "task_category ?t \<in> set (map CategoryName cats)"
    using assms(4) by simp
  ultimately obtain g where g: "g \<in> set (collectJobGroups cats (earlier @ ?t # later))"
      "?sg \<in> set (Searches g)"
    using collectJobGroups_holds[of ?t cats earlier later] by auto
  have saved: "saved = persist timestamp (collectJobGroups cats (earlier @ ?t # later)) db"
    using assms(5) by (rule saveJobsToSQLite_success)
  have "recorded timestamp (SearchTerm ?sg) (JobID job') saved"
    unfolding saved using g sibling by (rule persist_records)
  then have rec: "recorded timestamp searchTerm (JobID job') saved"
    by (simp add: runSearch_searchGroup)
  then have row: "JobID job' \<in> set (map JobID (jobs saved))"
    by (simp add: recorded_def)
  from rec have assoc: "(searchTerm, JobID job') \<in> set (associations saved)"
    by (rule recorded_association)
  from log group jobs sibling tree assms(5) row assoc show ?thesis by simp
qed

lemma afterPartialRun_eval:
  "saveJobsToSQLite noFault ''10:00'' (collectJobGroups getJobCategories [partialTask])
     emptyDatabase = (None, afterPartialRun)"
  by code_simp

theorem fetch_failure_leaves_siblings_witness:
  "jobPostings ''B'' (PostingStatusNotOK 429) = Inl (ErrorResponseNotOK 429) \<and>
   jobPostings ''A'' (PostingDecoded responseA) = Inr jobA \<and>
   ''Data Science'' \<in> set (map CategoryName getJobCategories) \<and>
   saveJobsToSQLite noFault ''10:00'' (collectJobGroups getJobCategories [partialTask])
     emptyDatabase = (None, afterPartialRun) \<and>
   logged (runSearch ''data scientist'' (task_schedule partialTask)) =
     [CouldNotGetJobPosting ''B'' (ErrorResponseNotOK 429)] \<and>
   searchGroup (runSearch ''data scientist'' (task_schedule partialTask)) =
     \<lparr>SearchTerm = ''data scientist'', Jobs = [jobC, jobA]\<rparr> \<and>
   searchGroup (runSearch ''data scientist''
     [(''C'', PostingDecoded responseC), (''A'', PostingDecoded responseA)]) =
     \<lparr>SearchTerm = ''data scientist'', Jobs = [jobC, jobA]\<rparr> \<and>
   JobID jobA \<in> set (map JobID (jobs afterPartialRun)) \<and>
   (''data scientist'', JobID jobA) \<in> set (associations afterPartialRun)"
proof -
  have a: "jobPostings ''B'' (PostingStatusNotOK 429) = Inl (ErrorResponseNotOK 429)" by simp
  have b: "(''A'', PostingDecoded responseA) \<in>
           set ([(''C'', PostingDecoded responseC)] @ [(''A'', PostingDecoded responseA)])" by simp
  have c: "jobPostings ''A'' (PostingDecoded responseA) = Inr jobA"
    by (simp add: responseA_def jobA_def)
  have d: "''Data Science'' \<in> set (map CategoryName getJobCategories)"
    by (simp add: getJobCategories_def)
  have t: "\<lparr>task_category = ''Data Science'', task_searchTerm = ''data scientist'',
            task_schedule = [(''C'', PostingDecoded responseC)] @
              (''B'', PostingStatusNotOK 429) # [(''A'', PostingDecoded responseA)]\<rparr> = partialTask"
    by (simp add: partialTask_def)
  have e: "saveJobsToSQLite noFault ''10:00''
      (collectJobGroups getJobCategories
        ([] @ \<lparr>task_category = ''Data Science'', task_searchTerm = ''data scientist'',
                task_schedule = [(''C'', PostingDecoded responseC)] @
                  (''B'', PostingStatusNotOK 429) # [(''A'', PostingDecoded responseA)]\<rparr> # []))
      emptyDatabase = (None, afterPartialRun)"
    using afterPartialRun_eval by (simp only: t append_Nil)
  have f: "searchGroup (runSearch ''data scientist''
     [(''C'', PostingDecoded responseC), (''A'', PostingDecoded responseA)]) =
     \<lparr>SearchTerm = ''data scientist'', Jobs = [jobC, jobA]\<rparr>"
    by (simp add: runSearch_def responseA_def responseC_def jobA_def jobC_def)
  have g: "logged (runSearch ''data scientist'' (task_schedule partialTask)) =
     [CouldNotGetJobPosting ''B'' (ErrorResponseNotOK 429)]"
    by (simp add: runSearch_def partialTask_def)
  have h: "task_schedule partialTask = [(''C'', PostingDecoded responseC)] @
              (''B'', PostingStatusNotOK 429) # [(''A'', PostingDecoded responseA)]"
    by (simp add: partialTask_def)
  from fetch_failure_leaves_siblings[OF a b c d e] a c d f g afterPartialRun_eval
  show ?thesis by (simp add: h)
qed



text \<open>
  Claim C3 fails on the code: the file is opened without \<^verbatim>\<open>os.O_TRUNC\<close>. When the
  calls succeed, the file holds the encoding of the tree followed by whatever the old
  content had beyond the length of the encoding; an old content that is the new encoding
  and at least one byte more is left as it was.
\<close>

theorem saveJobsToFile_keeps_old_tail:
  "saveJobsToFile allOk encode jobGroups path (files(path \<mapsto> old)) =
     (None, files(path \<mapsto> encode jobGroups @ drop (length (encode jobGroups)) old)) \<and>
   snd (saveJobsToFile allOk encode jobGroups path (files(path \<mapsto> encode jobGroups @ c # rest)))
     path = Some (encode jobGroups @ c # rest)"
  by (simp add: saveJobsToFile_def allOk_def writeAtStart_def)

end
